theory Spec2Isabelle
  imports
    Main
    "HOL-Library.AList"
    "HOL-Library.Char_ord"
    "HOL-Library.List_Lexorder"
    "HOL-Library.Multiset"
    "HOL-Library.Sublist"
begin

section \<open>The structured logger of pkg/logger\<close>

text \<open>
  The development embeds the logger package (the second unit of
  \<^verbatim>\<open>src/pkg/config/config.go\<close>): severity and format parsing, the Logger with its
  field map, contextual derivation through \<^verbatim>\<open>clone\<close>, emission through
  \<^verbatim>\<open>log\<close> and \<^verbatim>\<open>formatEntry\<close>, the HTTP middleware and the
  standard-library writer adapter.

  Go strings and byte slices are byte sequences, hence \<^typ>\<open>string\<close>. The Go runtime
  and standard library enter in two ways. What is a plain function of its arguments and
  small enough to write down is defined here (\<^verbatim>\<open>strings.Join\<close>,
  \<^verbatim>\<open>strings.Split\<close>, the ASCII path of \<^verbatim>\<open>strings.ToUpper\<close>, decimal
  printing, \<^verbatim>\<open>json.Marshal\<close> on a \<^verbatim>\<open>LogEntry\<close>). What depends on the
  environment or on tables that are not reproduced (the clock, the call stack, the order in
  which \<^verbatim>\<open>range\<close> visits a map, \<^verbatim>\<open>fmt.Sprintf\<close> on a caller-supplied
  format, the Unicode case tables) is a field of the record \<open>runtime\<close>, and every theorem
  holds for every value of it unless a hypothesis says otherwise.
\<close>

subsection \<open>Values, maps and the runtime\<close>

text \<open>
  A value of type \<^verbatim>\<open>interface{}\<close>. The logger only ever compares such a value with
  \<^verbatim>\<open>nil\<close>, prints it with \<^verbatim>\<open>%v\<close> and hands it to \<^verbatim>\<open>json.Marshal\<close>;
  \<open>VOther\<close> stands for a value of any further dynamic type and carries its \<^verbatim>\<open>%v\<close>
  text and its JSON encoding (\<open>None\<close> when \<^verbatim>\<open>json.Marshal\<close> returns an error for
  it, as for a channel, a function or a NaN).
\<close>

datatype gvalue = VNil | VInt int | VString string | VOther string "string option"

text \<open>
  A \<^verbatim>\<open>map[string]interface{}\<close> is an association list with distinct keys;
  \<^verbatim>\<open>m[k] = v\<close> is \<open>AList.update\<close>, \<^verbatim>\<open>len(m)\<close> is the length. The order
  of the list has no meaning: a \<^verbatim>\<open>range\<close> loop visits the entries in the order
  \<open>map_range\<close> of the runtime gives.
\<close>

type_synonym gmap = "(string \<times> gvalue) list"

type_synonym ref = nat

record runtime =
  fmt_Sprintf :: "string \<Rightarrow> gvalue list \<Rightarrow> string"
  time_Now :: string
  runtime_Caller :: "int \<Rightarrow> (string \<times> int) option"
  map_range :: "gmap \<Rightarrow> gmap"
  time_Since :: string
  unicode_ToUpper :: "string \<Rightarrow> string"
  unicode_ToLower :: "string \<Rightarrow> string"

text \<open>
  \<open>time_Now\<close> is \<^verbatim>\<open>time.Now().UTC().Format(time.RFC3339)\<close>, \<open>runtime_Caller n\<close>
  is the file and line of \<^verbatim>\<open>runtime.Caller(n)\<close> (\<open>None\<close> when \<^verbatim>\<open>ok\<close> is
  false), \<open>time_Since\<close> is \<^verbatim>\<open>time.Since(start).String()\<close>. A \<^verbatim>\<open>range\<close>
  loop visits every entry of a map exactly once:
\<close>

definition range_ok :: "runtime \<Rightarrow> bool" where
  "range_ok env = (\<forall>m. mset (map_range env m) = mset m)"

subsection \<open>Strings\<close>

definition dquote :: char where "dquote = CHR 0x22"
definition backslash :: char where "backslash = CHR 0x5C"
definition newline :: char where "newline = CHR 0x0A"

definition isASCII :: "string \<Rightarrow> bool" where
  "isASCII s = list_all (\<lambda>c. (of_char c :: nat) < 128) s"

definition upper_byte :: "char \<Rightarrow> char" where
  "upper_byte c = (if CHR ''a'' \<le> c \<and> c \<le> CHR ''z'' then char_of ((of_char c :: nat) - 32) else c)"

definition lower_byte :: "char \<Rightarrow> char" where
  "lower_byte c = (if CHR ''A'' \<le> c \<and> c \<le> CHR ''Z'' then char_of ((of_char c :: nat) + 32) else c)"

text \<open>
  \<^verbatim>\<open>strings.ToUpper\<close> and \<^verbatim>\<open>strings.ToLower\<close>: a string of ASCII bytes is
  mapped byte by byte; any other string goes through the Unicode tables.
\<close>

definition ToUpper :: "runtime \<Rightarrow> string \<Rightarrow> string" where
  "ToUpper env s = (if isASCII s then map upper_byte s else unicode_ToUpper env s)"

definition ToLower :: "runtime \<Rightarrow> string \<Rightarrow> string" where
  "ToLower env s = (if isASCII s then map lower_byte s else unicode_ToLower env s)"

text \<open>\<^verbatim>\<open>strings.Join(parts, sep)\<close>.\<close>

fun Join :: "string list \<Rightarrow> string \<Rightarrow> string" where
  "Join [] sep = []"
| "Join [x] sep = x"
| "Join (x # y # ys) sep = x @ sep @ Join (y # ys) sep"

text \<open>\<^verbatim>\<open>strings.Split(s, sep)\<close> for a separator of one byte.\<close>

fun Split :: "string \<Rightarrow> char \<Rightarrow> string list" where
  "Split [] sep = [[]]"
| "Split (c # cs) sep =
     (if c = sep then [] # Split cs sep
      else (case Split cs sep of [] \<Rightarrow> [[c]] | p # ps \<Rightarrow> (c # p) # ps))"

text \<open>Decimal printing of an integer (\<^verbatim>\<open>%d\<close>, and \<^verbatim>\<open>%v\<close> on an int).\<close>

fun digits :: "nat \<Rightarrow> string" where
  "digits n = (if n < 10 then [char_of (48 + n)] else digits (n div 10) @ [char_of (48 + n mod 10)])"

declare digits.simps [simp del]

definition itoa :: "int \<Rightarrow> string" where
  "itoa i = (if i < 0 then CHR ''-'' # digits (nat (- i)) else digits (nat i))"

text \<open>\<^verbatim>\<open>strings.Contains(s, sub)\<close>.\<close>

definition Contains :: "string \<Rightarrow> string \<Rightarrow> bool" where
  "Contains s sub = sublist sub s"

subsection \<open>Severity and format\<close>

text \<open>
  \<^verbatim>\<open>type LogLevel int\<close> with the constants \<^verbatim>\<open>DEBUG .. FATAL\<close> numbered by
  \<^verbatim>\<open>iota\<close>; levels are compared as integers.
\<close>

type_synonym LogLevel = int

definition DEBUG :: LogLevel where "DEBUG = 0"
definition INFO :: LogLevel where "INFO = 1"
definition WARN :: LogLevel where "WARN = 2"
definition ERROR :: LogLevel where "ERROR = 3"
definition FATAL :: LogLevel where "FATAL = 4"

definition String :: "LogLevel \<Rightarrow> string" where
  "String l =
     (if l = DEBUG then ''DEBUG''
      else if l = INFO then ''INFO''
      else if l = WARN then ''WARN''
      else if l = ERROR then ''ERROR''
      else if l = FATAL then ''FATAL''
      else ''UNKNOWN'')"

type_synonym LogFormat = int

definition TextFormat :: LogFormat where "TextFormat = 0"
definition JSONFormat :: LogFormat where "JSONFormat = 1"

definition parseLogLevel :: "runtime \<Rightarrow> string \<Rightarrow> LogLevel" where
  "parseLogLevel env lvl =
     (let u = ToUpper env lvl in
      if u = ''DEBUG'' then DEBUG
      else if u = ''INFO'' then INFO
      else if u = ''WARN'' \<or> u = ''WARNING'' then WARN
      else if u = ''ERROR'' then ERROR
      else if u = ''FATAL'' then FATAL
      else INFO)"

definition parseLogFormat :: "runtime \<Rightarrow> string \<Rightarrow> LogFormat" where
  "parseLogFormat env fmt =
     (let u = ToLower env fmt in
      if u = ''json'' then JSONFormat
      else if u = ''text'' \<or> u = ''plain'' then TextFormat
      else JSONFormat)"

subsection \<open>JSON encoding of a log entry\<close>

text \<open>
  \<^verbatim>\<open>json.Marshal\<close> on a string (\<^verbatim>\<open>appendString\<close> of encoding/json with HTML
  escaping, which \<^verbatim>\<open>Marshal\<close> switches on). A byte below \<^verbatim>\<open>0x80\<close> is copied
  when it is printable and none of \<^verbatim>\<open>" & < > \\<close>; quote and backslash get a
  backslash; backspace, form feed, newline, carriage return and tab get their letter;
  every other such byte becomes \<^verbatim>\<open>\u00XX\<close>. From \<^verbatim>\<open>0x80\<close> on, the bytes of a
  well-formed UTF-8 sequence are copied, except U+2028 and U+2029, which are written as
  escapes, and a byte that starts no well-formed sequence becomes \<^verbatim>\<open>\ufffd\<close>.
\<close>

definition hexdigit :: "nat \<Rightarrow> char" where
  "hexdigit n = ''0123456789abcdef'' ! n"

definition htmlSafe :: "char \<Rightarrow> bool" where
  "htmlSafe c =
     (32 \<le> (of_char c :: nat) \<and> (of_char c :: nat) < 128 \<and> c \<noteq> dquote \<and> c \<noteq> CHR ''&''
      \<and> c \<noteq> CHR ''<'' \<and> c \<noteq> CHR ''>'' \<and> c \<noteq> backslash)"

definition escape_byte :: "char \<Rightarrow> string" where
  "escape_byte c =
     (if htmlSafe c then [c]
      else if c = backslash \<or> c = dquote then [backslash, c]
      else if c = CHR 0x08 then [backslash, CHR ''b'']
      else if c = CHR 0x0C then [backslash, CHR ''f'']
      else if c = CHR 0x0A then [backslash, CHR ''n'']
      else if c = CHR 0x0D then [backslash, CHR ''r'']
      else if c = CHR 0x09 then [backslash, CHR ''t'']
      else [backslash, CHR ''u'', CHR ''0'', CHR ''0'',
            hexdigit ((of_char c :: nat) div 16), hexdigit ((of_char c :: nat) mod 16)])"

definition cont :: "nat \<Rightarrow> bool" where
  "cont b = (0x80 \<le> b \<and> b \<le> 0xBF)"

definition second_ok :: "nat \<Rightarrow> nat \<Rightarrow> bool" where
  "second_ok b0 b1 =
     (if b0 = 0xE0 then 0xA0 \<le> b1 \<and> b1 \<le> 0xBF
      else if b0 = 0xED then 0x80 \<le> b1 \<and> b1 \<le> 0x9F
      else if b0 = 0xF0 then 0x90 \<le> b1 \<and> b1 \<le> 0xBF
      else if b0 = 0xF4 then 0x80 \<le> b1 \<and> b1 \<le> 0x8F
      else cont b1)"

text \<open>
  The size \<^verbatim>\<open>utf8.DecodeRuneInString\<close> reports for the rune at the head of a
  string that starts with a byte from \<^verbatim>\<open>0x80\<close> on: 2, 3 or 4 for a well-formed
  sequence, 1 (with \<^verbatim>\<open>RuneError\<close>) otherwise.
\<close>

definition rune_size :: "nat list \<Rightarrow> nat" where
  "rune_size bs =
     (case bs of [] \<Rightarrow> 1
      | b0 # r \<Rightarrow>
          (let sz = (if 0xC2 \<le> b0 \<and> b0 \<le> 0xDF then 2
                     else if 0xE0 \<le> b0 \<and> b0 \<le> 0xEF then 3
                     else if 0xF0 \<le> b0 \<and> b0 \<le> 0xF4 then 4 else (1::nat))
           in if sz = 1 \<or> length bs < sz then 1
              else if \<not> second_ok b0 (r ! 0) then 1
              else if sz = 2 then 2
              else if \<not> cont (r ! 1) then 1
              else if sz = 3 then 3
              else if \<not> cont (r ! 2) then 1
              else 4))"

fun appendString :: "string \<Rightarrow> string" where
  "appendString [] = []"
| "appendString (b # bs) =
     (if (of_char b :: nat) < 0x80 then escape_byte b @ appendString bs
      else if rune_size (map of_char (b # bs)) = 1
        then backslash # ''ufffd'' @ appendString bs
      else if take 3 (b # bs) = [CHR 0xE2, CHR 0x80, CHR 0xA8]
        then backslash # ''u2028'' @ appendString (drop 2 bs)
      else if take 3 (b # bs) = [CHR 0xE2, CHR 0x80, CHR 0xA9]
        then backslash # ''u2029'' @ appendString (drop 2 bs)
      else take (rune_size (map of_char (b # bs))) (b # bs)
           @ appendString (drop (rune_size (map of_char (b # bs)) - 1) bs))"

definition json_string :: "string \<Rightarrow> string" where
  "json_string s = dquote # appendString s @ [dquote]"

definition json_value :: "gvalue \<Rightarrow> string option" where
  "json_value v =
     (case v of VNil \<Rightarrow> Some ''null''
      | VInt i \<Rightarrow> Some (itoa i)
      | VString s \<Rightarrow> Some (json_string s)
      | VOther shown encoded \<Rightarrow> encoded)"

text \<open>The first encoding error aborts the whole \<^verbatim>\<open>Marshal\<close>.\<close>

fun collect :: "'a option list \<Rightarrow> 'a list option" where
  "collect [] = Some []"
| "collect (x # xs) =
     (case x of None \<Rightarrow> None | Some y \<Rightarrow> map_option ((#) y) (collect xs))"

text \<open>A map is encoded as an object whose members are sorted by key.\<close>

definition json_member :: "string \<times> gvalue \<Rightarrow> string option" where
  "json_member kv = map_option (\<lambda>j. json_string (fst kv) @ '':'' @ j) (json_value (snd kv))"

definition json_map :: "gmap \<Rightarrow> string option" where
  "json_map m =
     map_option (\<lambda>members. ''{'' @ Join members '','' @ ''}'')
       (collect (map json_member (sort_key fst m)))"

text \<open>
  \<^verbatim>\<open>LogEntry\<close>. The entry holds the logger's map itself, not a copy; nothing writes
  to that map between the construction of the entry and its rendering, so the entry is
  modelled with the content of the map.
\<close>

record LogEntry =
  Timestamp :: string
  Level :: string
  Message :: string
  Caller :: string
  Fields :: gmap

definition json_key :: "string \<Rightarrow> string" where
  "json_key name = dquote # name @ [dquote, CHR '':'']"

text \<open>
  \<^verbatim>\<open>json.Marshal(entry)\<close>, following the struct tags: \<^verbatim>\<open>caller\<close> and
  \<^verbatim>\<open>fields\<close> are \<^verbatim>\<open>omitempty\<close>.
\<close>

definition json_Marshal :: "LogEntry \<Rightarrow> string option" where
  "json_Marshal entry =
     (case (if length (Fields entry) > 0
            then map_option (\<lambda>j. '','' @ json_key ''fields'' @ j) (json_map (Fields entry))
            else Some [])
      of None \<Rightarrow> None
       | Some fs \<Rightarrow>
           Some (''{'' @ json_key ''timestamp'' @ json_string (Timestamp entry)
                 @ '','' @ json_key ''level'' @ json_string (Level entry)
                 @ '','' @ json_key ''message'' @ json_string (Message entry)
                 @ (if Caller entry \<noteq> [] then '','' @ json_key ''caller'' @ json_string (Caller entry)
                    else [])
                 @ fs @ ''}''))"

subsection \<open>Loggers and the state they live in\<close>

datatype Writer = Stdout | Buffer nat

record Logger =
  level :: LogLevel
  format :: LogFormat
  "output" :: Writer
  fields_ref :: ref
  callerSkip :: int

datatype rw_call = Header | Write string | WriteHeader int

text \<open>
  A \<^verbatim>\<open>*Logger\<close> is an index into \<open>loggers\<close>, a map object an index into
  \<open>fieldmaps\<close>; allocation appends. \<open>written\<close> records every \<^verbatim>\<open>Write\<close> call
  made on an \<^verbatim>\<open>io.Writer\<close> with its bytes, \<open>response\<close> every call that reaches
  the \<^verbatim>\<open>http.ResponseWriter\<close> of the request being served. An \<^verbatim>\<open>output\<close>
  is never \<^verbatim>\<open>nil\<close>: \<^verbatim>\<open>New\<close> replaces \<^verbatim>\<open>nil\<close> by
  \<^verbatim>\<open>os.Stdout\<close>. The field \<^verbatim>\<open>fields\<close> of the Logger is \<open>fields_ref\<close>
  here.
\<close>

record state =
  loggers :: "Logger list"
  fieldmaps :: "gmap list"
  written :: "(Writer \<times> string) list"
  response :: "rw_call list"

definition make_map :: "state \<Rightarrow> ref \<times> state" where
  "make_map s = (length (fieldmaps s), s\<lparr>fieldmaps := fieldmaps s @ [[]]\<rparr>)"

definition map_assign :: "ref \<Rightarrow> string \<Rightarrow> gvalue \<Rightarrow> state \<Rightarrow> state" where
  "map_assign m k v s = s\<lparr>fieldmaps := (fieldmaps s)[m := AList.update k v (fieldmaps s ! m)]\<rparr>"

definition new_Logger :: "Logger \<Rightarrow> state \<Rightarrow> ref \<times> state" where
  "new_Logger L s = (length (loggers s), s\<lparr>loggers := loggers s @ [L]\<rparr>)"

definition Writer_Write :: "Writer \<Rightarrow> string \<Rightarrow> state \<Rightarrow> state" where
  "Writer_Write w bytes s = s\<lparr>written := written s @ [(w, bytes)]\<rparr>"

record Config =
  cfgLevel :: string
  cfgFormat :: string
  cfgOutput :: "Writer option"
  cfgCallerSkip :: int

definition New :: "runtime \<Rightarrow> Config \<Rightarrow> state \<Rightarrow> ref \<times> state" where
  "New env config s =
     (let (m, s1) = make_map s
      in new_Logger
           \<lparr>level = parseLogLevel env (cfgLevel config),
            format = parseLogFormat env (cfgFormat config),
            output = (case cfgOutput config of None \<Rightarrow> Stdout | Some w \<Rightarrow> w),
            fields_ref = m,
            callerSkip = cfgCallerSkip config\<rparr> s1)"

definition NewDefault :: "runtime \<Rightarrow> state \<Rightarrow> ref \<times> state" where
  "NewDefault env s =
     New env \<lparr>cfgLevel = ''info'', cfgFormat = ''json'', cfgOutput = Some Stdout, cfgCallerSkip = 0\<rparr> s"

definition SetLevel :: "ref \<Rightarrow> LogLevel \<Rightarrow> state \<Rightarrow> state" where
  "SetLevel l lvl s = s\<lparr>loggers := (loggers s)[l := (loggers s ! l)\<lparr>level := lvl\<rparr>]\<rparr>"

definition SetFormat :: "ref \<Rightarrow> LogFormat \<Rightarrow> state \<Rightarrow> state" where
  "SetFormat l fmt s = s\<lparr>loggers := (loggers s)[l := (loggers s ! l)\<lparr>format := fmt\<rparr>]\<rparr>"

definition SetOutput :: "ref \<Rightarrow> Writer \<Rightarrow> state \<Rightarrow> state" where
  "SetOutput l out s = s\<lparr>loggers := (loggers s)[l := (loggers s ! l)\<lparr>output := out\<rparr>]\<rparr>"

subsection \<open>Contextual derivation\<close>

definition clone :: "runtime \<Rightarrow> ref \<Rightarrow> state \<Rightarrow> ref \<times> state" where
  "clone env l s =
     (let (newFields, s1) = make_map s;
          s2 = foldl (\<lambda>t (k, v). map_assign newFields k v t) s1
                 (map_range env (fieldmaps s1 ! fields_ref (loggers s1 ! l)))
      in new_Logger
           \<lparr>level = level (loggers s2 ! l),
            format = format (loggers s2 ! l),
            output = output (loggers s2 ! l),
            fields_ref = newFields,
            callerSkip = callerSkip (loggers s2 ! l)\<rparr> s2)"

definition WithField :: "runtime \<Rightarrow> ref \<Rightarrow> string \<Rightarrow> gvalue \<Rightarrow> state \<Rightarrow> ref \<times> state" where
  "WithField env l key val s =
     (let (newLogger, s1) = clone env l s
      in (newLogger, map_assign (fields_ref (loggers s1 ! newLogger)) key val s1))"

text \<open>The argument map is only read, so it is passed by its content.\<close>

definition WithFields :: "runtime \<Rightarrow> ref \<Rightarrow> gmap \<Rightarrow> state \<Rightarrow> ref \<times> state" where
  "WithFields env l flds s =
     (let (newLogger, s1) = clone env l s
      in (newLogger,
          foldl (\<lambda>t (k, v). map_assign (fields_ref (loggers t ! newLogger)) k v t) s1
            (map_range env flds)))"

text \<open>
  A \<^verbatim>\<open>context.Context\<close> is the function \<^verbatim>\<open>ctx.Value\<close> on the string keys; an
  absent key gives \<open>VNil\<close>.
\<close>

definition WithContext :: "runtime \<Rightarrow> ref \<Rightarrow> (string \<Rightarrow> gvalue) \<Rightarrow> state \<Rightarrow> ref \<times> state" where
  "WithContext env l ctx s =
     (let (newLogger, s1) = clone env l s;
          requestID = ctx ''request_id'';
          s2 = (if requestID \<noteq> VNil
                then map_assign (fields_ref (loggers s1 ! newLogger)) ''request_id'' requestID s1
                else s1);
          userID = ctx ''user_id'';
          s3 = (if userID \<noteq> VNil
                then map_assign (fields_ref (loggers s2 ! newLogger)) ''user_id'' userID s2
                else s2)
      in (newLogger, s3))"

subsection \<open>Emission\<close>

text \<open>\<^verbatim>\<open>%v\<close> of a value.\<close>

definition fmt_v :: "gvalue \<Rightarrow> string" where
  "fmt_v v =
     (case v of VNil \<Rightarrow> ''<nil>''
      | VInt i \<Rightarrow> itoa i
      | VString s \<Rightarrow> s
      | VOther shown encoded \<Rightarrow> shown)"

text \<open>The \<^verbatim>\<open>TextFormat\<close> branch of \<^verbatim>\<open>formatEntry\<close>.\<close>

definition formatText :: "runtime \<Rightarrow> LogEntry \<Rightarrow> string" where
  "formatText env entry =
     (let parts = [];
          parts = parts @ [Timestamp entry];
          parts = parts @ [''['' @ Level entry @ '']''];
          parts = (if Caller entry \<noteq> [] then parts @ [''('' @ Caller entry @ '')''] else parts);
          parts = parts @ [Message entry];
          parts = (if length (Fields entry) > 0
                   then (let fieldParts = map (\<lambda>(k, v). k @ ''='' @ fmt_v v)
                                            (map_range env (Fields entry))
                         in parts @ [''{'' @ Join fieldParts '', '' @ ''}''])
                   else parts)
      in Join parts '' '')"

text \<open>
  \<^verbatim>\<open>formatEntry\<close>: the JSON branch returns the encoding when
  \<^verbatim>\<open>json.Marshal\<close> succeeds and falls through to the text branch otherwise; a
  format that is neither constant gives the bare message.
\<close>

definition formatEntry :: "runtime \<Rightarrow> Logger \<Rightarrow> LogEntry \<Rightarrow> string" where
  "formatEntry env L entry =
     (if format L = JSONFormat
        then (case json_Marshal entry of Some data \<Rightarrow> data | None \<Rightarrow> formatText env entry)
      else if format L = TextFormat then formatText env entry
      else Message entry)"

definition getCaller :: "runtime \<Rightarrow> Logger \<Rightarrow> string" where
  "getCaller env L =
     (case runtime_Caller env (3 + callerSkip L) of
        None \<Rightarrow> []
      | Some (file, line) \<Rightarrow>
          (let parts = Split file CHR ''/'';
               file = (if length parts > 0 then parts ! (length parts - 1) else file)
           in file @ '':'' @ itoa line))"

text \<open>
  The entry that \<^verbatim>\<open>log\<close> builds once the level has passed the threshold, for a
  logger \<open>L\<close> whose map has the content \<open>m\<close>.
\<close>

definition log_entry ::
    "runtime \<Rightarrow> Logger \<Rightarrow> gmap \<Rightarrow> LogLevel \<Rightarrow> string \<Rightarrow> gvalue list \<Rightarrow> LogEntry" where
  "log_entry env L m lvl msg args =
     (let message = (if length args > 0 then fmt_Sprintf env msg args else msg);
          entry = \<lparr>Timestamp = time_Now env, Level = String lvl, Message = message,
                   Caller = [], Fields = m\<rparr>
      in if lvl \<ge> ERROR \<or> level L = DEBUG
         then (let caller = getCaller env L
               in if caller \<noteq> [] then entry\<lparr>Caller := caller\<rparr> else entry)
         else entry)"

definition log :: "runtime \<Rightarrow> ref \<Rightarrow> LogLevel \<Rightarrow> string \<Rightarrow> gvalue list \<Rightarrow> state \<Rightarrow> state" where
  "log env l lvl msg args s =
     (let L = loggers s ! l
      in if lvl < level L then s
         else (let entry = log_entry env L (fieldmaps s ! fields_ref L) lvl msg args
               in Writer_Write (output L) (formatEntry env L entry @ [newline]) s))"

text \<open>
  The calls \<^verbatim>\<open>log\<close> makes, in the order of its statements: the early return comes
  before all of them. Formatting and the clock have no effect on the state, so they show
  only here; the \<^verbatim>\<open>Write\<close> is the one call that \<open>log\<close> records in \<open>written\<close>.
\<close>

datatype call =
    Call_Sprintf string "gvalue list"
  | Call_Now
  | Call_String LogLevel
  | Call_getCaller
  | Call_formatEntry LogEntry
  | Call_Write Writer string

definition log_calls ::
    "runtime \<Rightarrow> ref \<Rightarrow> LogLevel \<Rightarrow> string \<Rightarrow> gvalue list \<Rightarrow> state \<Rightarrow> call list" where
  "log_calls env l lvl msg args s =
     (let L = loggers s ! l
      in if lvl < level L then []
         else (let entry = log_entry env L (fieldmaps s ! fields_ref L) lvl msg args
               in (if length args > 0 then [Call_Sprintf msg args] else [])
                  @ [Call_Now, Call_String lvl]
                  @ (if lvl \<ge> ERROR \<or> level L = DEBUG then [Call_getCaller] else [])
                  @ [Call_formatEntry entry,
                     Call_Write (output L) (formatEntry env L entry @ [newline])]))"

fun writes_of :: "call list \<Rightarrow> (Writer \<times> string) list" where
  "writes_of [] = []"
| "writes_of (Call_Write w bytes # cs) = (w, bytes) # writes_of cs"
| "writes_of (c # cs) = writes_of cs"

definition Debug :: "runtime \<Rightarrow> ref \<Rightarrow> string \<Rightarrow> gvalue list \<Rightarrow> state \<Rightarrow> state" where
  "Debug env l msg args s = log env l DEBUG msg args s"

definition Info :: "runtime \<Rightarrow> ref \<Rightarrow> string \<Rightarrow> gvalue list \<Rightarrow> state \<Rightarrow> state" where
  "Info env l msg args s = log env l INFO msg args s"

definition Warn :: "runtime \<Rightarrow> ref \<Rightarrow> string \<Rightarrow> gvalue list \<Rightarrow> state \<Rightarrow> state" where
  "Warn env l msg args s = log env l WARN msg args s"

definition Error :: "runtime \<Rightarrow> ref \<Rightarrow> string \<Rightarrow> gvalue list \<Rightarrow> state \<Rightarrow> state" where
  "Error env l msg args s = log env l ERROR msg args s"

text \<open>
  A call either returns to its caller or ends the process with an exit status.
  \<open>and_then\<close> is the sequencing of a call with the code that follows it: what follows
  runs only when the call returns.
\<close>

datatype 'a outcome = Returns 'a | Exits int

definition os_Exit :: "int \<Rightarrow> state \<Rightarrow> unit outcome \<times> state" where
  "os_Exit code s = (Exits code, s)"

definition and_then ::
    "(state \<Rightarrow> 'a outcome \<times> state) \<Rightarrow> ('a \<Rightarrow> state \<Rightarrow> 'b outcome \<times> state)
      \<Rightarrow> state \<Rightarrow> 'b outcome \<times> state" where
  "and_then f g s =
     (case f s of (Returns x, s1) \<Rightarrow> g x s1 | (Exits code, s1) \<Rightarrow> (Exits code, s1))"

definition Fatal :: "runtime \<Rightarrow> ref \<Rightarrow> string \<Rightarrow> gvalue list \<Rightarrow> state \<Rightarrow> unit outcome \<times> state" where
  "Fatal env l msg args s = os_Exit 1 (log env l FATAL msg args s)"

subsection \<open>HTTP middleware\<close>

record Request =
  Method :: string
  URL_String :: string
  RemoteAddr :: string
  UserAgent :: string

record responseWriterWrapper =
  statusCode :: int

text \<open>
  \<^verbatim>\<open>WriteHeader\<close> of the wrapper stores the code and forwards the call to the
  embedded writer. \<^verbatim>\<open>Header\<close> and \<^verbatim>\<open>Write\<close> are the promoted methods of the
  embedded writer.
\<close>

definition wrapper_WriteHeader ::
    "int \<Rightarrow> responseWriterWrapper \<times> state \<Rightarrow> responseWriterWrapper \<times> state" where
  "wrapper_WriteHeader code ws =
     (case ws of (w, s) \<Rightarrow>
        (w\<lparr>statusCode := code\<rparr>, s\<lparr>response := response s @ [WriteHeader code]\<rparr>))"

definition wrapper_call ::
    "rw_call \<Rightarrow> responseWriterWrapper \<times> state \<Rightarrow> responseWriterWrapper \<times> state" where
  "wrapper_call c ws =
     (case c of
        WriteHeader code \<Rightarrow> wrapper_WriteHeader code ws
      | _ \<Rightarrow> (case ws of (w, s) \<Rightarrow> (w, s\<lparr>response := response s @ [c]\<rparr>)))"

text \<open>
  A handler is known by the calls it makes, in order, on the response writer it is given.
\<close>

type_synonym Handler = "Request \<Rightarrow> rw_call list"

definition ServeHTTP ::
    "Handler \<Rightarrow> Request \<Rightarrow> responseWriterWrapper \<times> state \<Rightarrow> responseWriterWrapper \<times> state" where
  "ServeHTTP next r ws = foldl (\<lambda>t c. wrapper_call c t) ws (next r)"

definition HTTPLogMiddleware :: "runtime \<Rightarrow> ref \<Rightarrow> Handler \<Rightarrow> Request \<Rightarrow> state \<Rightarrow> state" where
  "HTTPLogMiddleware env l next r s =
     (let wrapped = \<lparr>statusCode = 200\<rparr>;
          (wrapped, s1) = ServeHTTP next r (wrapped, s);
          (derived, s2) =
             WithFields env l
               [(''method'', VString (Method r)),
                (''url'', VString (URL_String r)),
                (''remote_addr'', VString (RemoteAddr r)),
                (''user_agent'', VString (UserAgent r)),
                (''status_code'', VInt (statusCode wrapped)),
                (''duration'', VString (time_Since env))] s1
      in Info env derived ''HTTP request'' [] s2)"

subsection \<open>Standard library logger adapter\<close>

record loggerWriter =
  logger :: ref

text \<open>The result pair is the byte count and the error, \<open>None\<close> for \<^verbatim>\<open>nil\<close>.\<close>

definition loggerWriter_Write ::
    "runtime \<Rightarrow> loggerWriter \<Rightarrow> string \<Rightarrow> state \<Rightarrow> (nat \<times> string option) \<times> state" where
  "loggerWriter_Write env w p s =
     (let s1 = Info env (logger w) ''%s'' [VString p] s
      in ((length p, None), s1))"

subsection \<open>Derived loggers\<close>

text \<open>
  \<open>fields_of s l\<close> is the content of the map behind \<^verbatim>\<open>l.fields\<close>. A logger is valid in
  a state when it and its map are allocated there and the keys of the map are distinct, as
  they are in every Go map.
\<close>

definition fields_of :: "state \<Rightarrow> ref \<Rightarrow> gmap" where
  "fields_of s l = fieldmaps s ! fields_ref (loggers s ! l)"

definition valid_logger :: "state \<Rightarrow> ref \<Rightarrow> bool" where
  "valid_logger s l =
     (l < length (loggers s) \<and> fields_ref (loggers s ! l) < length (fieldmaps s)
      \<and> distinct (map fst (fieldmaps s ! fields_ref (loggers s ! l))))"

text \<open>The fields \<^verbatim>\<open>WithContext\<close> attaches for a context.\<close>

definition context_fields :: "(string \<Rightarrow> gvalue) \<Rightarrow> (string \<rightharpoonup> gvalue)" where
  "context_fields ctx =
     (\<lambda>k. if (k = ''request_id'' \<or> k = ''user_id'') \<and> ctx k \<noteq> VNil then Some (ctx k) else None)"

text \<open>
  \<open>derives s l (l', s') adds\<close>: from the state \<open>s\<close> and the logger \<open>l\<close>, a call returned
  the logger \<open>l'\<close> in the state \<open>s'\<close>. Every Logger and every map of \<open>s\<close> is in \<open>s'\<close> as
  it was, nothing was written, \<open>l'\<close> and its map are newly allocated, the map of \<open>l'\<close> is
  that of \<open>l\<close> overridden by \<open>adds\<close>, and \<open>l'\<close> has the level, format, output and caller
  skip of \<open>l\<close>.
\<close>

definition derives :: "state \<Rightarrow> ref \<Rightarrow> ref \<times> state \<Rightarrow> (string \<rightharpoonup> gvalue) \<Rightarrow> bool" where
  "derives s l res adds =
     (case res of (l', s') \<Rightarrow>
        take (length (loggers s)) (loggers s') = loggers s
      \<and> take (length (fieldmaps s)) (fieldmaps s') = fieldmaps s
      \<and> written s' = written s \<and> response s' = response s
      \<and> l' = length (loggers s) \<and> length (loggers s') = Suc (length (loggers s))
      \<and> fields_ref (loggers s' ! l') = length (fieldmaps s)
      \<and> length (fieldmaps s') = Suc (length (fieldmaps s))
      \<and> map_of (fieldmaps s' ! fields_ref (loggers s' ! l'))
          = map_of (fieldmaps s ! fields_ref (loggers s ! l)) ++ adds
      \<and> level (loggers s' ! l') = level (loggers s ! l)
      \<and> format (loggers s' ! l') = format (loggers s ! l)
      \<and> output (loggers s' ! l') = output (loggers s ! l)
      \<and> callerSkip (loggers s' ! l') = callerSkip (loggers s ! l)
      \<and> valid_logger s' l')"

subsection \<open>Status codes of a response\<close>

text \<open>
  The codes a handler passes to \<^verbatim>\<open>WriteHeader\<close>, in order. Of these the spec names
  the first, with 200 when there is none; the wrapper keeps the last.
\<close>

fun status_writes :: "rw_call list \<Rightarrow> int list" where
  "status_writes [] = []"
| "status_writes (WriteHeader code # cs) = code # status_writes cs"
| "status_writes (c # cs) = status_writes cs"

definition first_status_or_200 :: "rw_call list \<Rightarrow> int" where
  "first_status_or_200 calls = (case status_writes calls of [] \<Rightarrow> 200 | code # _ \<Rightarrow> code)"

definition last_status_or_200 :: "rw_call list \<Rightarrow> int" where
  "last_status_or_200 calls = (if status_writes calls = [] then 200 else last (status_writes calls))"

text \<open>The map literal of \<^verbatim>\<open>HTTPLogMiddleware\<close>, for a given status code.\<close>

definition request_fields :: "runtime \<Rightarrow> Request \<Rightarrow> int \<Rightarrow> gmap" where
  "request_fields env r code =
     [(''method'', VString (Method r)),
      (''url'', VString (URL_String r)),
      (''remote_addr'', VString (RemoteAddr r)),
      (''user_agent'', VString (UserAgent r)),
      (''status_code'', VInt code),
      (''duration'', VString (time_Since env))]"

subsection \<open>Concrete inputs\<close>

text \<open>A runtime and states on which the theorems below are exercised.\<close>

definition env0 :: runtime where
  "env0 = \<lparr>fmt_Sprintf = (\<lambda>f args. f), time_Now = ''2024-01-01T00:00:00Z'',
           runtime_Caller = (\<lambda>n. if n = 3 then Some (''/srv/app/main.go'', 42) else None),
           map_range = (\<lambda>m. m), time_Since = ''1ms'',
           unicode_ToUpper = (\<lambda>s. s), unicode_ToLower = (\<lambda>s. s)\<rparr>"

definition s_init :: state where
  "s_init = \<lparr>loggers = [], fieldmaps = [], written = [], response = []\<rparr>"

definition s_text :: state where
  "s_text = snd (New env0 \<lparr>cfgLevel = ''info'', cfgFormat = ''text'', cfgOutput = Some (Buffer 0),
                            cfgCallerSkip = 0\<rparr> s_init)"

definition L_info :: Logger where
  "L_info = \<lparr>level = INFO, format = TextFormat, output = Stdout, fields_ref = 0, callerSkip = 0\<rparr>"

definition s_json :: state where
  "s_json = snd (NewDefault env0 s_init)"

definition s_chan :: state where
  "s_chan = snd (WithField env0 0 ''ch'' (VOther ''0xc000012345'' None) s_json)"

definition s_quiet :: state where
  "s_quiet = SetLevel 0 5 s_text"

definition s_errors_only :: state where
  "s_errors_only = SetLevel 0 ERROR s_text"

definition ctx_req :: "string \<Rightarrow> gvalue" where
  "ctx_req k = (if k = ''request_id'' then VString ''r-17'' else VNil)"

definition d_a1 :: "ref \<times> state" where
  "d_a1 = WithFields env0 0 [(''a'', VInt 1)] s_text"

definition d_a2 :: "ref \<times> state" where
  "d_a2 = WithField env0 (fst d_a1) ''a'' (VInt 2) (snd d_a1)"

definition req0 :: Request where
  "req0 = \<lparr>Method = ''GET'', URL_String = ''/missing'', RemoteAddr = ''10.0.0.7:5100'',
           UserAgent = ''curl/8.5''\<rparr>"

definition h_404 :: Handler where
  "h_404 r = [Header, WriteHeader 404, Write ''not found'']"

definition h_plain :: Handler where
  "h_plain r = [Write ''ok'']"

definition h_twice :: Handler where
  "h_twice r = [WriteHeader 404, WriteHeader 500]"

definition served :: "Handler \<Rightarrow> ref \<times> state" where
  "served h =
     WithFields env0 0 (request_fields env0 req0 (last_status_or_200 (h req0)))
       (s_text\<lparr>response := response s_text @ h req0\<rparr>)"

definition msg_quote :: string where
  "msg_quote = [CHR ''a'', dquote, CHR ''b'']"

definition e_hello :: LogEntry where
  "e_hello = log_entry env0 (loggers s_json ! 0) (fields_of s_json 0) INFO ''hello'' []"

definition e_quote :: LogEntry where
  "e_quote = log_entry env0 (loggers s_json ! 0) (fields_of s_json 0) INFO msg_quote []"

(*CONCRETE*)

section \<open>Properties\<close>

subsection \<open>Parsing\<close>

lemmas level_defs = DEBUG_def INFO_def WARN_def ERROR_def FATAL_def

lemma upper_byte_ascii: "((of_char (upper_byte c) :: nat) < 128) = ((of_char c :: nat) < 128)"
  unfolding upper_byte_def less_eq_char_def by auto

lemma lower_byte_ascii: "((of_char (lower_byte c) :: nat) < 128) = ((of_char c :: nat) < 128)"
  unfolding lower_byte_def less_eq_char_def by auto

lemma isASCII_map_upper: "isASCII (map upper_byte s) = isASCII s"
  by (induction s) (simp_all add: isASCII_def upper_byte_ascii)

lemma isASCII_map_lower: "isASCII (map lower_byte s) = isASCII s"
  by (induction s) (simp_all add: isASCII_def lower_byte_ascii)

lemma ToUpper_ascii: "isASCII (map upper_byte t) \<Longrightarrow> ToUpper env t = map upper_byte t"
  by (simp add: ToUpper_def isASCII_map_upper)

lemma ToLower_ascii: "isASCII (map lower_byte t) \<Longrightarrow> ToLower env t = map lower_byte t"
  by (simp add: ToLower_def isASCII_map_lower)

lemma parseLogLevel_range: "parseLogLevel env t \<in> {DEBUG, INFO, WARN, ERROR, FATAL}"
  by (simp add: parseLogLevel_def Let_def)

lemma parseLogFormat_range: "parseLogFormat env t \<in> {TextFormat, JSONFormat}"
  by (simp add: parseLogFormat_def Let_def)

text \<open>
  C4. \<^verbatim>\<open>parseLogLevel\<close> and \<^verbatim>\<open>parseLogFormat\<close> return one of their constants
  on every string. A text that \<^verbatim>\<open>strings.ToUpper\<close> maps to none of the six level
  words is \<open>INFO\<close>, a text that \<^verbatim>\<open>strings.ToLower\<close> maps to none of the three
  format words is \<open>JSONFormat\<close>. Two texts that differ only in the case of ASCII letters
  parse alike; every casing of "warning" is \<open>WARN\<close> and every casing of "text" is
  \<open>TextFormat\<close>; "bogus" is \<open>INFO\<close>, "warning" is \<open>WARN\<close>, "TEXT" is
  \<open>TextFormat\<close>.
\<close>

theorem parse_total_case_insensitive:
  "parseLogLevel env t \<in> {DEBUG, INFO, WARN, ERROR, FATAL}
   \<and> parseLogFormat env t \<in> {TextFormat, JSONFormat}
   \<and> (ToUpper env t \<notin> {''DEBUG'', ''INFO'', ''WARN'', ''WARNING'', ''ERROR'', ''FATAL''}
        \<longrightarrow> parseLogLevel env t = INFO)
   \<and> (ToLower env t \<notin> {''json'', ''text'', ''plain''} \<longrightarrow> parseLogFormat env t = JSONFormat)
   \<and> (isASCII t \<and> map upper_byte t = map upper_byte t' \<longrightarrow> parseLogLevel env t = parseLogLevel env t')
   \<and> (isASCII t \<and> map lower_byte t = map lower_byte t' \<longrightarrow> parseLogFormat env t = parseLogFormat env t')
   \<and> (map upper_byte t = ''WARNING'' \<longrightarrow> parseLogLevel env t = WARN)
   \<and> (map lower_byte t = ''text'' \<longrightarrow> parseLogFormat env t = TextFormat)
   \<and> parseLogLevel env ''bogus'' = INFO
   \<and> parseLogLevel env ''warning'' = WARN
   \<and> parseLogFormat env ''TEXT'' = TextFormat"
proof -
  have unmapped_level:
    "ToUpper env t \<notin> {''DEBUG'', ''INFO'', ''WARN'', ''WARNING'', ''ERROR'', ''FATAL''}
      \<longrightarrow> parseLogLevel env t = INFO"
    by (simp add: parseLogLevel_def Let_def)
  have unmapped_format:
    "ToLower env t \<notin> {''json'', ''text'', ''plain''} \<longrightarrow> parseLogFormat env t = JSONFormat"
    by (simp add: parseLogFormat_def Let_def)
  have ci_level: "parseLogLevel env t = parseLogLevel env t'"
    if "isASCII t" "map upper_byte t = map upper_byte t'"
  proof -
    from that have "isASCII t'" by (metis isASCII_map_upper)
    with that show ?thesis by (simp add: parseLogLevel_def ToUpper_def)
  qed
  have ci_format: "parseLogFormat env t = parseLogFormat env t'"
    if "isASCII t" "map lower_byte t = map lower_byte t'"
  proof -
    from that have "isASCII t'" by (metis isASCII_map_lower)
    with that show ?thesis by (simp add: parseLogFormat_def ToLower_def)
  qed
  have warning: "parseLogLevel env t = WARN" if "map upper_byte t = ''WARNING''"
  proof -
    have "isASCII (map upper_byte t)" unfolding that by (simp add: isASCII_def)
    then have "ToUpper env t = ''WARNING''" using that by (simp add: ToUpper_ascii)
    then show ?thesis by (simp add: parseLogLevel_def)
  qed
  have textfmt: "parseLogFormat env t = TextFormat" if "map lower_byte t = ''text''"
  proof -
    have "isASCII (map lower_byte t)" unfolding that by (simp add: isASCII_def)
    then have "ToLower env t = ''text''" using that by (simp add: ToLower_ascii)
    then show ?thesis by (simp add: parseLogFormat_def)
  qed
  have ex1: "parseLogLevel env ''bogus'' = INFO" by code_simp
  have ex2: "parseLogLevel env ''warning'' = WARN" by code_simp
  have ex3: "parseLogFormat env ''TEXT'' = TextFormat" by code_simp
  show ?thesis
    using parseLogLevel_range parseLogFormat_range unmapped_level unmapped_format
      ci_level ci_format warning textfmt ex1 ex2 ex3
    by blast
qed

theorem parse_total_case_insensitive_witness:
  "ToUpper env0 ''verbose'' \<notin> {''DEBUG'', ''INFO'', ''WARN'', ''WARNING'', ''ERROR'', ''FATAL''}
   \<and> parseLogLevel env0 ''verbose'' = INFO
   \<and> ToLower env0 ''xml'' \<notin> {''json'', ''text'', ''plain''}
   \<and> parseLogFormat env0 ''xml'' = JSONFormat
   \<and> isASCII ''Error'' \<and> map upper_byte ''Error'' = map upper_byte ''eRROR''
   \<and> parseLogLevel env0 ''Error'' = parseLogLevel env0 ''eRROR''
   \<and> map upper_byte ''WarNing'' = ''WARNING'' \<and> parseLogLevel env0 ''WarNing'' = WARN"
  using parse_total_case_insensitive [of env0 "''verbose''" "''eRROR''"]
    parse_total_case_insensitive [of env0 "''xml''" "''eRROR''"]
    parse_total_case_insensitive [of env0 "''Error''" "''eRROR''"]
    parse_total_case_insensitive [of env0 "''WarNing''" "''eRROR''"]
  by code_simp

subsection \<open>Emission\<close>

lemma written_log:
  "written (log env l lvl msg args s) =
     written s @ (if level (loggers s ! l) \<le> lvl
                  then [(output (loggers s ! l),
                         formatEntry env (loggers s ! l)
                           (log_entry env (loggers s ! l) (fieldmaps s ! fields_ref (loggers s ! l))
                              lvl msg args) @ [newline])]
                  else [])"
  by (simp add: log_def Let_def Writer_Write_def)

lemma log_below: "lvl < level (loggers s ! l) \<Longrightarrow> log env l lvl msg args s = s"
  by (simp add: log_def Let_def)

lemma log_frame:
  "loggers (log env l lvl msg args s) = loggers s \<and> fieldmaps (log env l lvl msg args s) = fieldmaps s
   \<and> response (log env l lvl msg args s) = response s"
  by (simp add: log_def Let_def Writer_Write_def)

lemma wrote_iff: "(written (log env l lvl msg args s) \<noteq> written s) = (level (loggers s ! l) \<le> lvl)"
  by (simp add: written_log)

lemma writes_of_append: "writes_of (xs @ ys) = writes_of xs @ writes_of ys"
  by (induction xs rule: writes_of.induct) simp_all

lemma log_unfold:
  "log env l lvl msg args s =
     (if lvl < level (loggers s ! l) then s
      else Writer_Write (output (loggers s ! l))
             (formatEntry env (loggers s ! l)
                (log_entry env (loggers s ! l) (fieldmaps s ! fields_ref (loggers s ! l))
                   lvl msg args) @ [newline]) s)"
  by (simp add: log_def Let_def)

lemma writes_of_log_calls:
  "written (log env l lvl msg args s) = written s @ writes_of (log_calls env l lvl msg args s)"
  by (simp add: written_log log_calls_def Let_def writes_of_append)

text \<open>
  C1. A call of \<^verbatim>\<open>log\<close> at level \<open>lvl\<close> on a logger with threshold \<open>T\<close> makes exactly
  one \<^verbatim>\<open>Write\<close> on the logger's output, with the rendered entry and a newline, when
  \<open>T \<le> lvl\<close>, and none otherwise. Below the threshold the state is left as it was and
  \<^verbatim>\<open>log\<close> makes no call at all, neither to format nor to write. Each of
  \<^verbatim>\<open>Debug\<close>, \<^verbatim>\<open>Info\<close>, \<^verbatim>\<open>Warn\<close>, \<^verbatim>\<open>Error\<close> and
  \<^verbatim>\<open>Fatal\<close> leaves the state as it was when its level is below the threshold, and
  otherwise writes the entry of its own level, rendered, with a newline, to the logger's
  output; so each writes if and only if its level is at least the threshold, the threshold
  itself included.
\<close>

theorem emission_iff_threshold:
  "written (log env l lvl msg args s) =
     written s @ (if level (loggers s ! l) \<le> lvl
                  then [(output (loggers s ! l),
                         formatEntry env (loggers s ! l)
                           (log_entry env (loggers s ! l) (fieldmaps s ! fields_ref (loggers s ! l))
                              lvl msg args) @ [newline])]
                  else [])
   \<and> (lvl < level (loggers s ! l) \<longrightarrow> log env l lvl msg args s = s)
   \<and> (lvl < level (loggers s ! l) \<longrightarrow> log_calls env l lvl msg args s = [])
   \<and> written (log env l lvl msg args s) = written s @ writes_of (log_calls env l lvl msg args s)
   \<and> Debug env l msg args s =
       (if DEBUG < level (loggers s ! l) then s
        else Writer_Write (output (loggers s ! l))
               (formatEntry env (loggers s ! l)
                  (log_entry env (loggers s ! l) (fieldmaps s ! fields_ref (loggers s ! l))
                     DEBUG msg args) @ [newline]) s)
   \<and> Info env l msg args s =
       (if INFO < level (loggers s ! l) then s
        else Writer_Write (output (loggers s ! l))
               (formatEntry env (loggers s ! l)
                  (log_entry env (loggers s ! l) (fieldmaps s ! fields_ref (loggers s ! l))
                     INFO msg args) @ [newline]) s)
   \<and> Warn env l msg args s =
       (if WARN < level (loggers s ! l) then s
        else Writer_Write (output (loggers s ! l))
               (formatEntry env (loggers s ! l)
                  (log_entry env (loggers s ! l) (fieldmaps s ! fields_ref (loggers s ! l))
                     WARN msg args) @ [newline]) s)
   \<and> Error env l msg args s =
       (if ERROR < level (loggers s ! l) then s
        else Writer_Write (output (loggers s ! l))
               (formatEntry env (loggers s ! l)
                  (log_entry env (loggers s ! l) (fieldmaps s ! fields_ref (loggers s ! l))
                     ERROR msg args) @ [newline]) s)
   \<and> snd (Fatal env l msg args s) =
       (if FATAL < level (loggers s ! l) then s
        else Writer_Write (output (loggers s ! l))
               (formatEntry env (loggers s ! l)
                  (log_entry env (loggers s ! l) (fieldmaps s ! fields_ref (loggers s ! l))
                     FATAL msg args) @ [newline]) s)
   \<and> (written (Debug env l msg args s) \<noteq> written s) = (level (loggers s ! l) \<le> DEBUG)
   \<and> (written (Info env l msg args s) \<noteq> written s) = (level (loggers s ! l) \<le> INFO)
   \<and> (written (Warn env l msg args s) \<noteq> written s) = (level (loggers s ! l) \<le> WARN)
   \<and> (written (Error env l msg args s) \<noteq> written s) = (level (loggers s ! l) \<le> ERROR)
   \<and> (written (snd (Fatal env l msg args s)) \<noteq> written s) = (level (loggers s ! l) \<le> FATAL)"
proof -
  have calls: "lvl < level (loggers s ! l) \<longrightarrow> log_calls env l lvl msg args s = []"
    by (simp add: log_calls_def)
  have methods:
    "Debug env l msg args s = log env l DEBUG msg args s"
    "Info env l msg args s = log env l INFO msg args s"
    "Warn env l msg args s = log env l WARN msg args s"
    "Error env l msg args s = log env l ERROR msg args s"
    "snd (Fatal env l msg args s) = log env l FATAL msg args s"
    by (simp_all add: Debug_def Info_def Warn_def Error_def Fatal_def os_Exit_def)
  show ?thesis
    unfolding methods
    using written_log [of env l lvl msg args s] log_below [of lvl s l env msg args] calls
      writes_of_log_calls [of env l lvl msg args s]
    by (simp add: wrote_iff log_unfold [symmetric])
qed

theorem emission_iff_threshold_witness:
  "DEBUG < level (loggers s_text ! 0) \<and> log env0 0 DEBUG ''quiet'' [] s_text = s_text
   \<and> log_calls env0 0 DEBUG ''quiet'' [] s_text = []
   \<and> written (log env0 0 INFO ''up'' [] s_text)
       = [(Buffer 0, ''2024-01-01T00:00:00Z [INFO] up'' @ [newline])]
   \<and> written (Error env0 0 ''disk full'' [] s_text)
       = [(Buffer 0, ''2024-01-01T00:00:00Z [ERROR] (main.go:42) disk full'' @ [newline])]"
  using emission_iff_threshold [of env0 0 DEBUG "''quiet''" "[]" s_text]
    emission_iff_threshold [of env0 0 INFO "''up''" "[]" s_text]
    emission_iff_threshold [of env0 0 ERROR "''disk full''" "[]" s_text]
  by code_simp

lemma getCaller_empty_iff:
  "(getCaller env L = []) = (runtime_Caller env (3 + callerSkip L) = None)"
  by (auto simp: getCaller_def Let_def split: option.splits)

lemma Caller_log_entry:
  "Caller (log_entry env L m lvl msg args) =
     (if lvl \<ge> ERROR \<or> level L = DEBUG then getCaller env L else [])"
  by (simp add: log_entry_def Let_def)

text \<open>
  C5. The entry that \<^verbatim>\<open>log\<close> builds and renders has a caller exactly when the level
  is at least \<open>ERROR\<close> or the threshold is \<open>DEBUG\<close>, and \<^verbatim>\<open>runtime.Caller\<close>
  finds the frame. In particular it has none for \<open>INFO\<close> under the threshold \<open>INFO\<close>.
\<close>

theorem caller_only_for_errors_or_debug:
  "(Caller (log_entry env L m lvl msg args) \<noteq> []) =
     ((lvl \<ge> ERROR \<or> level L = DEBUG) \<and> runtime_Caller env (3 + callerSkip L) \<noteq> None)
   \<and> (Caller (log_entry env L m lvl msg args) \<noteq> [] \<longrightarrow> lvl \<ge> ERROR \<or> level L = DEBUG)
   \<and> (level L = INFO \<longrightarrow> Caller (log_entry env L m INFO msg args) = [])
   \<and> log env l lvl msg args s =
       (if lvl < level (loggers s ! l) then s
        else Writer_Write (output (loggers s ! l))
               (formatEntry env (loggers s ! l)
                  (log_entry env (loggers s ! l) (fieldmaps s ! fields_ref (loggers s ! l))
                     lvl msg args) @ [newline]) s)"
  by (simp add: Caller_log_entry getCaller_empty_iff level_defs log_def Let_def)

theorem caller_only_for_errors_or_debug_witness:
  "Caller (log_entry env0 L_info [] ERROR ''boom'' []) = ''main.go:42''
   \<and> Caller (log_entry env0 L_info [] ERROR ''boom'' []) \<noteq> [] \<and> ERROR \<ge> ERROR
   \<and> level L_info = INFO \<and> Caller (log_entry env0 L_info [] INFO ''fine'' []) = []"
  using caller_only_for_errors_or_debug [of env0 L_info "[]" ERROR "''boom''" "[]"]
  by code_simp

text \<open>
  C6. When \<^verbatim>\<open>json.Marshal\<close> fails on an entry, a logger in \<open>JSONFormat\<close> renders
  the entry as a logger in \<open>TextFormat\<close> does, and \<^verbatim>\<open>log\<close> writes that text with a
  newline. Whatever \<^verbatim>\<open>json.Marshal\<close> does, a call whose level passes the threshold
  makes one \<^verbatim>\<open>Write\<close>.
\<close>

theorem marshal_failure_falls_back_to_text:
  "(format L = JSONFormat \<and> json_Marshal entry = None
      \<longrightarrow> formatEntry env L entry = formatEntry env (L\<lparr>format := TextFormat\<rparr>) entry)
   \<and> (format (loggers s ! l) = JSONFormat \<and> level (loggers s ! l) \<le> lvl
       \<and> json_Marshal (log_entry env (loggers s ! l) (fieldmaps s ! fields_ref (loggers s ! l))
             lvl msg args) = None
      \<longrightarrow> written (log env l lvl msg args s) =
            written s @ [(output (loggers s ! l),
                          formatText env
                            (log_entry env (loggers s ! l) (fieldmaps s ! fields_ref (loggers s ! l))
                               lvl msg args) @ [newline])])
   \<and> (level (loggers s ! l) \<le> lvl
      \<longrightarrow> length (written (log env l lvl msg args s)) = Suc (length (written s)))"
  by (simp add: formatEntry_def written_log TextFormat_def JSONFormat_def)

theorem marshal_failure_falls_back_to_text_witness:
  "format (loggers s_chan ! 1) = JSONFormat \<and> level (loggers s_chan ! 1) \<le> INFO
   \<and> json_Marshal (log_entry env0 (loggers s_chan ! 1)
        (fieldmaps s_chan ! fields_ref (loggers s_chan ! 1)) INFO ''hello'' []) = None
   \<and> written (log env0 1 INFO ''hello'' [] s_chan) =
        [(Stdout, ''2024-01-01T00:00:00Z [INFO] hello {ch=0xc000012345}'' @ [newline])]"
  using marshal_failure_falls_back_to_text
          [of "loggers s_chan ! 1" _ env0 s_chan 1 INFO "''hello''" "[]"]
  by code_simp

text \<open>
  C9. \<^verbatim>\<open>Fatal\<close> runs \<^verbatim>\<open>log\<close> at \<open>FATAL\<close>, threshold check included, and then
  ends the process with status 1: the outcome is never a return, and whatever the caller
  has after the call does not run.
\<close>

theorem fatal_emits_then_exits:
  "Fatal env l msg args s = (Exits 1, log env l FATAL msg args s)
   \<and> and_then (Fatal env l msg args) k s = (Exits 1, log env l FATAL msg args s)
   \<and> fst (Fatal env l msg args s) \<noteq> Exits 0
   \<and> fst (Fatal env l msg args s) \<noteq> Returns ()
   \<and> written (snd (Fatal env l msg args s)) =
        written s @ (if level (loggers s ! l) \<le> FATAL
                     then [(output (loggers s ! l),
                            formatEntry env (loggers s ! l)
                              (log_entry env (loggers s ! l)
                                 (fieldmaps s ! fields_ref (loggers s ! l)) FATAL msg args)
                            @ [newline])]
                     else [])
   \<and> (FATAL < level (loggers s ! l) \<longrightarrow> snd (Fatal env l msg args s) = s)"
  by (simp add: Fatal_def os_Exit_def and_then_def written_log log_below)

theorem fatal_emits_then_exits_witness:
  "FATAL < level (loggers s_quiet ! 0) \<and> Fatal env0 0 ''bye'' [] s_quiet = (Exits 1, s_quiet)
   \<and> and_then (Fatal env0 0 ''bye'' []) (\<lambda>u. Fatal env0 0 ''again'' []) s_text
        = (Exits 1, s_text\<lparr>written := [(Buffer 0, ''2024-01-01T00:00:00Z [FATAL] (main.go:42) bye'' @ [newline])]\<rparr>)"
  using fatal_emits_then_exits [where env = env0 and l = 0 and msg = "''bye''" and args = "[]"
          and s = s_quiet and k = "\<lambda>u. Fatal env0 0 ''again'' []"]
    fatal_emits_then_exits [where env = env0 and l = 0 and msg = "''bye''" and args = "[]"
          and s = s_text and k = "\<lambda>u. Fatal env0 0 ''again'' []"]
  by code_simp

subsection \<open>Standard library logger adapter\<close>

text \<open>
  C10. \<^verbatim>\<open>Write\<close> of the adapter returns the length of its argument and a
  \<^verbatim>\<open>nil\<close> error on every input and for every logger; when the logger's threshold is
  above \<open>INFO\<close> the state is unchanged, so nothing was written.
\<close>

theorem writer_adapter_reports_full_write:
  "fst (loggerWriter_Write env w p s) = (length p, None)
   \<and> (INFO < level (loggers s ! logger w) \<longrightarrow> snd (loggerWriter_Write env w p s) = s)
   \<and> written (snd (loggerWriter_Write env w p s)) =
        written s @ (if level (loggers s ! logger w) \<le> INFO
                     then [(output (loggers s ! logger w),
                            formatEntry env (loggers s ! logger w)
                              (log_entry env (loggers s ! logger w)
                                 (fieldmaps s ! fields_ref (loggers s ! logger w)) INFO
                                 ''%s'' [VString p])
                            @ [newline])]
                     else [])"
  by (simp add: loggerWriter_Write_def Info_def written_log log_below)

theorem writer_adapter_reports_full_write_witness:
  "INFO < level (loggers s_errors_only ! logger \<lparr>logger = 0\<rparr>)
   \<and> loggerWriter_Write env0 \<lparr>logger = 0\<rparr> ''hello'' s_errors_only = ((5, None), s_errors_only)"
  using writer_adapter_reports_full_write [of env0 "\<lparr>logger = 0\<rparr>" "''hello''" s_errors_only]
  by code_simp

subsection \<open>Contextual derivation\<close>

lemma map_assign_simps:
  "loggers (map_assign m k v t) = loggers t"
  "written (map_assign m k v t) = written t"
  "response (map_assign m k v t) = response t"
  "fieldmaps (map_assign m k v t) = (fieldmaps t)[m := AList.update k v (fieldmaps t ! m)]"
  by (simp_all add: map_assign_def)

lemma foldl_map_assign:
  "m < length (fieldmaps t) \<Longrightarrow>
   foldl (\<lambda>t (k, v). map_assign m k v t) t kvs
     = t\<lparr>fieldmaps := (fieldmaps t)[m := foldl (\<lambda>a (k, v). AList.update k v a) (fieldmaps t ! m) kvs]\<rparr>"
proof (induction kvs arbitrary: t)
  case Nil
  then show ?case by simp
next
  case (Cons kv kvs)
  obtain k v where kv: "kv = (k, v)" by (cases kv)
  have len: "m < length (fieldmaps (map_assign m k v t))"
    using Cons.prems by (simp add: map_assign_simps)
  show ?case
    using Cons.prems by (simp add: kv Cons.IH [OF len] map_assign_simps)
qed

lemma foldl_map_assign_ref:
  "loggers t = lg \<Longrightarrow>
   foldl (\<lambda>t (k, v). map_assign (f (loggers t)) k v t) t kvs
     = foldl (\<lambda>t (k, v). map_assign (f lg) k v t) t kvs"
proof (induction kvs arbitrary: t)
  case Nil
  then show ?case by simp
next
  case (Cons kv kvs)
  obtain k v where kv: "kv = (k, v)" by (cases kv)
  show ?case
    using Cons.prems by (simp add: kv Cons.IH map_assign_simps)
qed

lemma map_add_upd_shift: "m(k \<mapsto> v) ++ n = m ++ ([k \<mapsto> v] ++ n)"
  by (rule ext) (simp add: map_add_def split: option.splits)

lemma map_of_foldl_update:
  "map_of (foldl (\<lambda>a (k, v). AList.update k v a) a kvs) = map_of a ++ map_of (rev kvs)"
proof (induction kvs arbitrary: a)
  case Nil
  then show ?case by simp
next
  case (Cons kv kvs)
  obtain k v where kv: "kv = (k, v)" by (cases kv)
  have "map_of (foldl (\<lambda>a (k, v). AList.update k v a) a (kv # kvs))
          = map_of (AList.update k v a) ++ map_of (rev kvs)"
    by (simp add: kv Cons.IH)
  also have "\<dots> = (map_of a)(k \<mapsto> v) ++ map_of (rev kvs)"
    by (simp only: update_conv')
  also have "\<dots> = map_of a ++ ([k \<mapsto> v] ++ map_of (rev kvs))"
    by (rule map_add_upd_shift)
  also have "[k \<mapsto> v] ++ map_of (rev kvs) = map_of (rev (kv # kvs))"
    by (simp add: kv)
  finally show ?case .
qed

lemma distinct_foldl_update:
  "distinct (map fst a) \<Longrightarrow> distinct (map fst (foldl (\<lambda>a (k, v). AList.update k v a) a kvs))"
  by (induction kvs arbitrary: a) (auto simp: distinct_update)

lemma map_of_rev_perm:
  assumes "distinct (map fst m)" "mset p = mset m"
  shows "map_of (rev p) = map_of m"
proof -
  have "image_mset fst (mset p) = image_mset fst (mset m)" by (simp only: assms(2))
  then have "mset (map fst p) = mset (map fst m)" by (simp only: mset_map)
  then have "distinct (map fst p) = distinct (map fst m)" by (rule mset_eq_imp_distinct_iff)
  then have "distinct (map fst p)" using assms(1) by (simp only:)
  then have d: "distinct (map fst (rev p))" by (simp only: rev_map [symmetric] distinct_rev)
  have "set p = set m" using assms(2) by (rule mset_eq_setD)
  then have e: "set (rev p) = set m" by (simp only: set_rev)
  show ?thesis using e by (simp only: map_of_inject_set [OF d assms(1)])
qed

lemma map_of_copy:
  assumes "distinct (map fst m)" "range_ok env"
  shows "map_of (foldl (\<lambda>a (k, v). AList.update k v a) a (map_range env m)) = map_of a ++ map_of m"
  using assms by (simp add: map_of_foldl_update map_of_rev_perm range_ok_def)

lemma clone_result:
  assumes "l < length (loggers s)" "fields_ref (loggers s ! l) < length (fieldmaps s)"
  shows "clone env l s =
           (length (loggers s),
            s\<lparr>fieldmaps := fieldmaps s @
                  [foldl (\<lambda>a (k, v). AList.update k v a) []
                     (map_range env (fieldmaps s ! fields_ref (loggers s ! l)))],
              loggers := loggers s @ [(loggers s ! l)\<lparr>fields_ref := length (fieldmaps s)\<rparr>]\<rparr>)"
  using assms
  by (simp add: clone_def make_map_def new_Logger_def foldl_map_assign nth_append)

lemma WithField_result:
  assumes "l < length (loggers s)" "fields_ref (loggers s ! l) < length (fieldmaps s)"
  shows "WithField env l key val s =
           (length (loggers s),
            s\<lparr>fieldmaps := fieldmaps s @
                  [AList.update key val
                     (foldl (\<lambda>a (k, v). AList.update k v a) []
                        (map_range env (fieldmaps s ! fields_ref (loggers s ! l))))],
              loggers := loggers s @ [(loggers s ! l)\<lparr>fields_ref := length (fieldmaps s)\<rparr>]\<rparr>)"
  using assms by (simp add: WithField_def clone_result map_assign_def)

lemma WithFields_result:
  assumes "l < length (loggers s)" "fields_ref (loggers s ! l) < length (fieldmaps s)"
  shows "WithFields env l flds s =
           (length (loggers s),
            s\<lparr>fieldmaps := fieldmaps s @
                  [foldl (\<lambda>a (k, v). AList.update k v a)
                     (foldl (\<lambda>a (k, v). AList.update k v a) []
                        (map_range env (fieldmaps s ! fields_ref (loggers s ! l))))
                     (map_range env flds)],
              loggers := loggers s @ [(loggers s ! l)\<lparr>fields_ref := length (fieldmaps s)\<rparr>]\<rparr>)"
  using assms
  by (simp add: WithFields_def clone_result
        foldl_map_assign_ref [where f = "\<lambda>ls. fields_ref (ls ! length (loggers s))", OF refl]
        foldl_map_assign)

lemma WithContext_result:
  assumes "l < length (loggers s)" "fields_ref (loggers s ! l) < length (fieldmaps s)"
  shows "WithContext env l ctx s =
           (length (loggers s),
            s\<lparr>fieldmaps := fieldmaps s @
                  [(if ctx ''user_id'' \<noteq> VNil then AList.update ''user_id'' (ctx ''user_id'') else id)
                     ((if ctx ''request_id'' \<noteq> VNil
                       then AList.update ''request_id'' (ctx ''request_id'') else id)
                        (foldl (\<lambda>a (k, v). AList.update k v a) []
                           (map_range env (fieldmaps s ! fields_ref (loggers s ! l)))))],
              loggers := loggers s @ [(loggers s ! l)\<lparr>fields_ref := length (fieldmaps s)\<rparr>]\<rparr>)"
  using assms by (simp add: WithContext_def clone_result map_assign_def Let_def)

lemma derives_intro:
  assumes "valid_logger s l"
    and "map_of c = map_of (fieldmaps s ! fields_ref (loggers s ! l)) ++ adds"
    and "distinct (map fst c)"
  shows "derives s l
           (length (loggers s),
            s\<lparr>fieldmaps := fieldmaps s @ [c],
              loggers := loggers s @ [(loggers s ! l)\<lparr>fields_ref := length (fieldmaps s)\<rparr>]\<rparr>)
           adds"
  using assms by (simp add: derives_def valid_logger_def nth_append)

lemma copy_distinct:
  "distinct (map fst (foldl (\<lambda>a (k, v). AList.update k v a) [] kvs))"
  by (rule distinct_foldl_update) simp

lemma WithField_derives:
  assumes "valid_logger s l" "range_ok env"
  shows "derives s l (WithField env l key val s) [key \<mapsto> val]"
proof -
  have v: "l < length (loggers s)" "fields_ref (loggers s ! l) < length (fieldmaps s)"
    "distinct (map fst (fieldmaps s ! fields_ref (loggers s ! l)))"
    using assms(1) by (simp_all add: valid_logger_def)
  show ?thesis
    unfolding WithField_result [OF v(1,2)]
    by (rule derives_intro [OF assms(1)])
       (simp_all add: update_conv' map_of_copy [OF v(3) assms(2)] distinct_update copy_distinct)
qed

lemma WithFields_derives:
  assumes "valid_logger s l" "range_ok env" "distinct (map fst flds)"
  shows "derives s l (WithFields env l flds s) (map_of flds)"
proof -
  have v: "l < length (loggers s)" "fields_ref (loggers s ! l) < length (fieldmaps s)"
    "distinct (map fst (fieldmaps s ! fields_ref (loggers s ! l)))"
    using assms(1) by (simp_all add: valid_logger_def)
  show ?thesis
    unfolding WithFields_result [OF v(1,2)]
    by (rule derives_intro [OF assms(1)])
       (simp_all add: map_of_copy [OF v(3) assms(2)] map_of_copy [OF assms(3) assms(2)]
          distinct_foldl_update copy_distinct)
qed

lemma context_fields_add:
  "map_of ((if ctx ''user_id'' \<noteq> VNil then AList.update ''user_id'' (ctx ''user_id'') else id)
            ((if ctx ''request_id'' \<noteq> VNil
              then AList.update ''request_id'' (ctx ''request_id'') else id) c))
     = map_of c ++ context_fields ctx"
  by (rule ext) (simp add: update_conv' context_fields_def map_add_def)

lemma WithContext_derives:
  assumes "valid_logger s l" "range_ok env"
  shows "derives s l (WithContext env l ctx s) (context_fields ctx)"
proof -
  have v: "l < length (loggers s)" "fields_ref (loggers s ! l) < length (fieldmaps s)"
    "distinct (map fst (fieldmaps s ! fields_ref (loggers s ! l)))"
    using assms(1) by (simp_all add: valid_logger_def)
  show ?thesis
    unfolding WithContext_result [OF v(1,2)]
    by (rule derives_intro [OF assms(1)])
       (simp_all add: context_fields_add map_of_copy [OF v(3) assms(2)] distinct_update copy_distinct)
qed

lemma derives_receiver:
  assumes "valid_logger s l" "derives s l (l', s') adds"
  shows "loggers s' ! l = loggers s ! l"
    and "fieldmaps s' ! fields_ref (loggers s ! l) = fieldmaps s ! fields_ref (loggers s ! l)"
    and "l' \<noteq> l"
    and "fields_ref (loggers s' ! l') \<noteq> fields_ref (loggers s ! l)"
proof -
  have v: "l < length (loggers s)" "fields_ref (loggers s ! l) < length (fieldmaps s)"
    using assms(1) by (simp_all add: valid_logger_def)
  have t: "take (length (loggers s)) (loggers s') = loggers s"
    "take (length (fieldmaps s)) (fieldmaps s') = fieldmaps s"
    "l' = length (loggers s)" "fields_ref (loggers s' ! l') = length (fieldmaps s)"
    using assms(2) by (auto simp add: derives_def)
  show "loggers s' ! l = loggers s ! l"
    using v(1) t(1) by (metis nth_take)
  show "fieldmaps s' ! fields_ref (loggers s ! l) = fieldmaps s ! fields_ref (loggers s ! l)"
    using v(2) t(2) by (metis nth_take)
  show "l' \<noteq> l" using v(1) t(3) by simp
  show "fields_ref (loggers s' ! l') \<noteq> fields_ref (loggers s ! l)" using v(2) t(4) by simp
qed

lemma derives_log_receiver:
  assumes "valid_logger s l" "derives s l (l', s') adds"
  shows "written (log env l lvl msg args s') = written (log env l lvl msg args s)"
proof -
  have "written s' = written s" using assms(2) by (simp add: derives_def)
  then show ?thesis
    by (simp add: written_log derives_receiver(1,2) [OF assms])
qed

lemma sublist_Join: "x \<in> set xs \<Longrightarrow> sublist x (Join xs sep)"
proof (induction xs sep rule: Join.induct)
  case (1 sep)
  then show ?case by simp
next
  case (2 x' sep)
  then show ?case by simp
next
  case (3 x' y ys sep)
  show ?case
  proof (cases "x = x'")
    case True
    then show ?thesis by simp
  next
    case False
    with 3 have "sublist x (Join (y # ys) sep)" by simp
    then obtain p q where "Join (y # ys) sep = p @ x @ q" by (auto simp: sublist_def)
    then have "Join (x' # y # ys) sep = (x' @ sep @ p) @ x @ q" by simp
    then show ?thesis unfolding sublist_def by blast
  qed
qed

lemma sublist_mid: "sublist x y \<Longrightarrow> sublist x (p @ y @ q)"
proof -
  assume "sublist x y"
  then obtain a b where "y = a @ x @ b" by (auto simp: sublist_def)
  then have "p @ y @ q = (p @ a) @ x @ (b @ q)" by simp
  then show ?thesis unfolding sublist_def by blast
qed

lemma sublist_snoc: "sublist x y \<Longrightarrow> sublist x (y @ q)"
  using sublist_mid [of x y "[]" q] by simp

lemma formatText_parts:
  "formatText env e =
     Join ([Timestamp e, ''['' @ Level e @ '']'']
           @ (if Caller e \<noteq> [] then [''('' @ Caller e @ '')''] else [])
           @ [Message e]
           @ (if Fields e \<noteq> []
              then [''{'' @ Join (map (\<lambda>(k, v). k @ ''='' @ fmt_v v) (map_range env (Fields e))) '', ''
                    @ ''}'']
              else [])) '' ''"
  by (simp add: formatText_def Let_def)

lemma formatText_shows_field:
  assumes "(k, v) \<in> set (map_range env (Fields e))" "Fields e \<noteq> []"
  shows "sublist (k @ ''='' @ fmt_v v) (formatText env e)"
proof -
  let ?fp = "map (\<lambda>(k, v). k @ ''='' @ fmt_v v) (map_range env (Fields e))"
  let ?last = "''{'' @ Join ?fp '', '' @ ''}''"
  have "k @ ''='' @ fmt_v v \<in> set ?fp" using assms(1) by force
  then have "sublist (k @ ''='' @ fmt_v v) (Join ?fp '', '')" by (rule sublist_Join)
  then have a: "sublist (k @ ''='' @ fmt_v v) ?last"
    by (rule sublist_mid)
  have "sublist ?last (formatText env e)"
    unfolding formatText_parts using assms(2) by (intro sublist_Join) simp
  with a show ?thesis by (rule sublist_order.order.trans)
qed

lemma derives_valid: "derives s l (l', s') adds \<Longrightarrow> valid_logger s' l'"
  by (auto simp add: derives_def)

lemma derives_fields:
  "derives s l (l', s') adds \<Longrightarrow> map_of (fields_of s' l') = map_of (fields_of s l) ++ adds"
  by (auto simp add: derives_def fields_of_def)

lemma derives_shares:
  "derives s l (l', s') adds \<Longrightarrow>
     level (loggers s' ! l') = level (loggers s ! l) \<and> format (loggers s' ! l') = format (loggers s ! l)
     \<and> output (loggers s' ! l') = output (loggers s ! l)
     \<and> callerSkip (loggers s' ! l') = callerSkip (loggers s ! l)
     \<and> written s' = written s \<and> response s' = response s"
  by (auto simp add: derives_def)

lemma itoa_2: "itoa 2 = ''2''"
  by code_simp

lemma range_ok_env0: "range_ok env0"
  by (simp add: range_ok_def env0_def)

lemma valid_s_text: "valid_logger s_text 0"
  by code_simp

text \<open>
  C2. For a valid logger, \<^verbatim>\<open>WithField\<close>, \<^verbatim>\<open>WithFields\<close> and
  \<^verbatim>\<open>WithContext\<close> each return a newly allocated Logger with a newly allocated map,
  which holds the receiver's fields overridden by the additions, and with the receiver's
  level, format, output and caller skip. The receiver, its map and every other Logger and
  map are as before, and nothing is written. A record emitted from the receiver after the
  derivation is, byte for byte, the record it would have emitted before.
\<close>

theorem derivation_leaves_receiver_untouched:
  assumes "valid_logger s l" "range_ok env" "distinct (map fst flds)"
  shows "derives s l (WithField env l key val s) [key \<mapsto> val]
       \<and> derives s l (WithFields env l flds s) (map_of flds)
       \<and> derives s l (WithContext env l ctx s) (context_fields ctx)
       \<and> loggers (snd (WithField env l key val s)) ! l = loggers s ! l
       \<and> fields_of (snd (WithField env l key val s)) l = fields_of s l
       \<and> loggers (snd (WithFields env l flds s)) ! l = loggers s ! l
       \<and> fields_of (snd (WithFields env l flds s)) l = fields_of s l
       \<and> loggers (snd (WithContext env l ctx s)) ! l = loggers s ! l
       \<and> fields_of (snd (WithContext env l ctx s)) l = fields_of s l
       \<and> written (log env l lvl msg args (snd (WithField env l key val s)))
           = written (log env l lvl msg args s)
       \<and> written (log env l lvl msg args (snd (WithFields env l flds s)))
           = written (log env l lvl msg args s)
       \<and> written (log env l lvl msg args (snd (WithContext env l ctx s)))
           = written (log env l lvl msg args s)"
proof -
  have recv: "loggers s' ! l = loggers s ! l \<and> fields_of s' l = fields_of s l
              \<and> written (log env l lvl msg args s') = written (log env l lvl msg args s)"
    if "derives s l (l', s') adds" for l' s' adds
    using derives_receiver(1,2) [OF assms(1) that] derives_log_receiver [OF assms(1) that]
    by (simp add: fields_of_def)
  have a: "derives s l (fst (WithField env l key val s), snd (WithField env l key val s)) [key \<mapsto> val]"
    using WithField_derives [OF assms(1,2)] by simp
  have b: "derives s l (fst (WithFields env l flds s), snd (WithFields env l flds s)) (map_of flds)"
    using WithFields_derives [OF assms] by simp
  have c: "derives s l (fst (WithContext env l ctx s), snd (WithContext env l ctx s)) (context_fields ctx)"
    using WithContext_derives [OF assms(1,2)] by simp
  show ?thesis
    using a b c recv [OF a] recv [OF b] recv [OF c] by simp
qed

theorem derivation_leaves_receiver_untouched_witness:
  "valid_logger s_text 0 \<and> range_ok env0 \<and> distinct (map fst [(''a'', VInt (1::int))])
   \<and> written (log env0 0 INFO ''up'' [] (snd (WithField env0 0 ''user'' (VString ''ann'') s_text)))
        = [(Buffer 0, ''2024-01-01T00:00:00Z [INFO] up'' @ [newline])]
   \<and> written (log env0 0 INFO ''up'' [] (snd (WithFields env0 0 [(''a'', VInt 1)] s_text)))
        = [(Buffer 0, ''2024-01-01T00:00:00Z [INFO] up'' @ [newline])]
   \<and> written (log env0 0 INFO ''up'' [] (snd (WithContext env0 0 ctx_req s_text)))
        = [(Buffer 0, ''2024-01-01T00:00:00Z [INFO] up'' @ [newline])]
   \<and> written (log env0 1 INFO ''up'' [] (snd (WithContext env0 0 ctx_req s_text)))
        = [(Buffer 0, ''2024-01-01T00:00:00Z [INFO] up {request_id=r-17}'' @ [newline])]"
proof -
  have d: "distinct (map fst [(''a'', VInt (1::int))])" by simp
  have base: "written (log env0 0 INFO ''up'' [] s_text)
               = [(Buffer 0, ''2024-01-01T00:00:00Z [INFO] up'' @ [newline])]"
    by code_simp
  have derived: "written (log env0 1 INFO ''up'' [] (snd (WithContext env0 0 ctx_req s_text)))
        = [(Buffer 0, ''2024-01-01T00:00:00Z [INFO] up {request_id=r-17}'' @ [newline])]"
    by code_simp
  show ?thesis
    using derivation_leaves_receiver_untouched [OF valid_s_text range_ok_env0 d,
            of "''user''" "VString ''ann''" ctx_req INFO "''up''" "[]"]
      valid_s_text range_ok_env0 d base derived
    by simp
qed

text \<open>
  C7. \<^verbatim>\<open>WithField\<close> gives a logger whose map is the receiver's with the one key set
  to the new value, whatever it held before; \<^verbatim>\<open>WithFields\<close> gives the receiver's
  map overridden by every entry of the argument. After
  \<^verbatim>\<open>WithFields({"a": 1})\<close> and then \<^verbatim>\<open>WithField("a", 2)\<close> the map holds 2 under
  \<^verbatim>\<open>a\<close>, the entry that \<^verbatim>\<open>log\<close> builds carries that map, and a text logger that
  passes the threshold writes one line, on the receiver's output, that contains
  \<^verbatim>\<open>a=2\<close>.
\<close>

theorem field_attachment_last_write_wins:
  assumes "valid_logger s l" "range_ok env" "distinct (map fst flds)"
  shows "map_of (fields_of (snd (WithField env l key val s)) (fst (WithField env l key val s)))
           = (map_of (fields_of s l))(key \<mapsto> val)
       \<and> map_of (fields_of (snd (WithFields env l flds s)) (fst (WithFields env l flds s)))
           = map_of (fields_of s l) ++ map_of flds
       \<and> (case WithFields env l [(''a'', VInt 1)] s of (l1, s1) \<Rightarrow>
            case WithField env l1 ''a'' (VInt 2) s1 of (l2, s2) \<Rightarrow>
              map_of (fields_of s2 l2) ''a'' = Some (VInt 2)
            \<and> Fields (log_entry env (loggers s2 ! l2) (fields_of s2 l2) lvl msg args) = fields_of s2 l2
            \<and> (format (loggers s ! l) = TextFormat \<and> level (loggers s ! l) \<le> lvl \<longrightarrow>
                 length (written (log env l2 lvl msg args s2)) = Suc (length (written s))
               \<and> fst (last (written (log env l2 lvl msg args s2))) = output (loggers s ! l)
               \<and> Contains (snd (last (written (log env l2 lvl msg args s2)))) ''a=2''))"
proof -
  obtain l1 s1 where w1: "WithFields env l [(''a'', VInt 1)] s = (l1, s1)" by (cases "WithFields env l [(''a'', VInt 1)] s")
  obtain l2 s2 where w2: "WithField env l1 ''a'' (VInt 2) s1 = (l2, s2)" by (cases "WithField env l1 ''a'' (VInt 2) s1")
  have d1: "derives s l (l1, s1) (map_of [(''a'', VInt 1)])"
    using WithFields_derives [OF assms(1,2), of "[(''a'', VInt 1)]"] w1 by simp
  have v1: "valid_logger s1 l1" using d1 by (rule derives_valid)
  have d2: "derives s1 l1 (l2, s2) [''a'' \<mapsto> VInt 2]"
    using WithField_derives [OF v1 assms(2), of "''a''" "VInt 2"] w2 by simp
  have v2: "valid_logger s2 l2" using d2 by (rule derives_valid)
  have m2: "map_of (fields_of s2 l2) ''a'' = Some (VInt 2)"
    by (simp add: derives_fields [OF d2])
  then have mem: "(''a'', VInt 2) \<in> set (fields_of s2 l2)" by (rule map_of_SomeD)
  then have ne: "fields_of s2 l2 \<noteq> []" by auto
  have "mset (map_range env (fields_of s2 l2)) = mset (fields_of s2 l2)"
    using assms(2) by (simp add: range_ok_def)
  then have "set (map_range env (fields_of s2 l2)) = set (fields_of s2 l2)" by (rule mset_eq_setD)
  with mem have mem': "(''a'', VInt 2) \<in> set (map_range env (fields_of s2 l2))" by simp
  have same2: "level (loggers s2 ! l2) = level (loggers s ! l)" "format (loggers s2 ! l2) = format (loggers s ! l)"
    "output (loggers s2 ! l2) = output (loggers s ! l)" "written s2 = written s"
    using derives_shares [OF d1] derives_shares [OF d2] by simp_all
  have entry: "Fields (log_entry env (loggers s2 ! l2) (fields_of s2 l2) lvl msg args) = fields_of s2 l2"
    by (simp add: log_entry_def Let_def)
  have shown: "Contains (formatEntry env (loggers s2 ! l2)
                   (log_entry env (loggers s2 ! l2) (fields_of s2 l2) lvl msg args) @ [newline]) ''a=2''"
    if "format (loggers s ! l) = TextFormat"
  proof -
    have "sublist (''a'' @ ''='' @ fmt_v (VInt 2))
            (formatText env (log_entry env (loggers s2 ! l2) (fields_of s2 l2) lvl msg args))"
      by (rule formatText_shows_field) (simp_all add: entry mem' ne)
    then have "sublist ''a=2'' (formatText env (log_entry env (loggers s2 ! l2) (fields_of s2 l2) lvl msg args))"
      by (simp add: fmt_v_def itoa_2)
    then have "sublist ''a=2'' (formatText env (log_entry env (loggers s2 ! l2) (fields_of s2 l2) lvl msg args) @ [newline])"
      by (rule sublist_snoc)
    then show ?thesis
      using that by (simp add: Contains_def formatEntry_def same2 TextFormat_def JSONFormat_def)
  qed
  have chain: "format (loggers s ! l) = TextFormat \<and> level (loggers s ! l) \<le> lvl \<longrightarrow>
                 length (written (log env l2 lvl msg args s2)) = Suc (length (written s))
               \<and> fst (last (written (log env l2 lvl msg args s2))) = output (loggers s ! l)
               \<and> Contains (snd (last (written (log env l2 lvl msg args s2)))) ''a=2''"
    using shown by (simp add: written_log same2 fields_of_def [symmetric])
  have f1: "map_of (fields_of (snd (WithField env l key val s)) (fst (WithField env l key val s)))
           = (map_of (fields_of s l))(key \<mapsto> val)"
    using derives_fields [of s l "fst (WithField env l key val s)" "snd (WithField env l key val s)"]
      WithField_derives [OF assms(1,2), of key val] by simp
  have f2: "map_of (fields_of (snd (WithFields env l flds s)) (fst (WithFields env l flds s)))
           = map_of (fields_of s l) ++ map_of flds"
    using derives_fields [of s l "fst (WithFields env l flds s)" "snd (WithFields env l flds s)"]
      WithFields_derives [OF assms] by simp
  show ?thesis
    using f1 f2 m2 entry chain by (simp add: w1 w2)
qed

theorem field_attachment_last_write_wins_witness:
  "valid_logger s_text 0 \<and> range_ok env0 \<and> distinct (map fst [(''b'', VString ''x'')])
   \<and> format (loggers s_text ! 0) = TextFormat \<and> level (loggers s_text ! 0) \<le> INFO
   \<and> Contains (snd (last (written (log env0 (fst d_a2) INFO ''hi'' [] (snd d_a2))))) ''a=2''
   \<and> written (log env0 (fst d_a2) INFO ''hi'' [] (snd d_a2))
        = [(Buffer 0, ''2024-01-01T00:00:00Z [INFO] hi {a=2}'' @ [newline])]"
proof -
  have d: "distinct (map fst [(''b'', VString ''x'')])" by simp
  have f: "format (loggers s_text ! 0) = TextFormat \<and> level (loggers s_text ! 0) \<le> INFO"
    by code_simp
  have out: "written (log env0 (fst d_a2) INFO ''hi'' [] (snd d_a2))
        = [(Buffer 0, ''2024-01-01T00:00:00Z [INFO] hi {a=2}'' @ [newline])]"
    by code_simp
  have "Contains (snd (last (written (log env0 (fst d_a2) INFO ''hi'' [] (snd d_a2))))) ''a=2''"
    using field_attachment_last_write_wins [OF valid_s_text range_ok_env0 d,
            of "''k''" VNil INFO "''hi''" "[]"] f
    by (simp add: case_prod_beta d_a1_def [symmetric] d_a2_def [symmetric])
  then show ?thesis using valid_s_text range_ok_env0 d f out by simp
qed

subsection \<open>HTTP middleware\<close>

lemma status_writes_append: "status_writes (xs @ ys) = status_writes xs @ status_writes ys"
  by (induction xs rule: status_writes.induct) simp_all

lemma wrapper_call_simps:
  "wrapper_call (WriteHeader code) (w, s) =
     (w\<lparr>statusCode := code\<rparr>, s\<lparr>response := response s @ [WriteHeader code]\<rparr>)"
  "wrapper_call Header (w, s) = (w, s\<lparr>response := response s @ [Header]\<rparr>)"
  "wrapper_call (Write bytes) (w, s) = (w, s\<lparr>response := response s @ [Write bytes]\<rparr>)"
  by (simp_all add: wrapper_call_def wrapper_WriteHeader_def)

lemma wrapper_calls_result:
  "foldl (\<lambda>t c. wrapper_call c t) (w, s) calls =
     (w\<lparr>statusCode := (if status_writes calls = [] then statusCode w else last (status_writes calls))\<rparr>,
      s\<lparr>response := response s @ calls\<rparr>)"
proof (induction calls arbitrary: w s)
  case Nil
  then show ?case by simp
next
  case (Cons c calls)
  show ?case
    by (cases c) (simp_all add: wrapper_call_simps Cons.IH)
qed

lemma ServeHTTP_result:
  "ServeHTTP next r (\<lparr>statusCode = 200\<rparr>, s) =
     (\<lparr>statusCode = last_status_or_200 (next r)\<rparr>, s\<lparr>response := response s @ next r\<rparr>)"
  by (simp add: ServeHTTP_def wrapper_calls_result last_status_or_200_def)

lemma HTTPLogMiddleware_unfold:
  "HTTPLogMiddleware env l next r s =
     (case WithFields env l (request_fields env r (last_status_or_200 (next r)))
             (s\<lparr>response := response s @ next r\<rparr>) of
        (derived, s2) \<Rightarrow> log env derived INFO ''HTTP request'' [] s2)"
  by (simp add: HTTPLogMiddleware_def ServeHTTP_result request_fields_def Info_def)

lemma request_fields_distinct: "distinct (map fst (request_fields env r code))"
  by (simp add: request_fields_def)

lemma request_fields_status:
  "(m ++ map_of (request_fields env r code)) ''status_code'' = Some (VInt code)"
  by (simp add: request_fields_def map_add_def)

lemma valid_logger_response:
  "valid_logger (s\<lparr>response := x\<rparr>) l = valid_logger s l"
  by (simp add: valid_logger_def)

lemma HTTPLogMiddleware_served:
  "HTTPLogMiddleware env0 0 h req0 s_text
     = log env0 (fst (served h)) INFO ''HTTP request'' [] (snd (served h))"
  by (simp add: HTTPLogMiddleware_unfold served_def case_prod_beta)

text \<open>
  C3, as amended. The wrapper starts at 200 and every \<^verbatim>\<open>WriteHeader\<close> of the handler
  overwrites the code it holds, so after the handler it holds the code of the last
  \<^verbatim>\<open>WriteHeader\<close>, or 200 when there was none; every call of the handler reaches the
  underlying writer unchanged. The middleware then logs, at \<open>INFO\<close>, from a logger derived
  with the six request fields, whose \<^verbatim>\<open>status_code\<close> is that code. A handler that
  writes no status gives 200, and a handler that writes one status gives that status.
\<close>

theorem middleware_logs_last_status:
  assumes "valid_logger s l" "range_ok env"
  shows
   "statusCode (fst (ServeHTTP next r (\<lparr>statusCode = 200\<rparr>, s))) = last_status_or_200 (next r)
    \<and> response (snd (ServeHTTP next r (\<lparr>statusCode = 200\<rparr>, s))) = response s @ next r
    \<and> (case WithFields env l (request_fields env r (last_status_or_200 (next r)))
               (s\<lparr>response := response s @ next r\<rparr>) of
          (derived, s2) \<Rightarrow>
            HTTPLogMiddleware env l next r s = log env derived INFO ''HTTP request'' [] s2
          \<and> map_of (fields_of s2 derived) ''status_code''
              = Some (VInt (last_status_or_200 (next r)))
          \<and> written (HTTPLogMiddleware env l next r s) =
              written s @ (if level (loggers s ! l) \<le> INFO
                           then [(output (loggers s ! l),
                                  formatEntry env (loggers s2 ! derived)
                                    (log_entry env (loggers s2 ! derived) (fields_of s2 derived)
                                       INFO ''HTTP request'' []) @ [newline])]
                           else []))
    \<and> (status_writes (next r) = [] \<longrightarrow> last_status_or_200 (next r) = 200)
    \<and> (status_writes (next r) = [code] \<longrightarrow> last_status_or_200 (next r) = code)"
proof -
  let ?s1 = "s\<lparr>response := response s @ next r\<rparr>"
  let ?flds = "request_fields env r (last_status_or_200 (next r))"
  obtain derived s2 where w: "WithFields env l ?flds ?s1 = (derived, s2)"
    by (cases "WithFields env l ?flds ?s1")
  have v1: "valid_logger ?s1 l" using assms(1) by (simp add: valid_logger_response)
  have d: "derives ?s1 l (derived, s2) (map_of ?flds)"
    using WithFields_derives [OF v1 assms(2) request_fields_distinct
            [where env = env and r = r and code = "last_status_or_200 (next r)"]] w
    by simp
  have sh: "level (loggers s2 ! derived) = level (loggers s ! l)"
    "output (loggers s2 ! derived) = output (loggers s ! l)" "written s2 = written s"
    using derives_shares [OF d] by simp_all
  have m: "map_of (fields_of s2 derived) ''status_code'' = Some (VInt (last_status_or_200 (next r)))"
    by (simp only: derives_fields [OF d] request_fields_status)
  have u: "HTTPLogMiddleware env l next r s = log env derived INFO ''HTTP request'' [] s2"
    by (simp add: HTTPLogMiddleware_unfold w)
  have wr: "written (HTTPLogMiddleware env l next r s) =
              written s @ (if level (loggers s ! l) \<le> INFO
                           then [(output (loggers s ! l),
                                  formatEntry env (loggers s2 ! derived)
                                    (log_entry env (loggers s2 ! derived) (fields_of s2 derived)
                                       INFO ''HTTP request'' []) @ [newline])]
                           else [])"
    by (simp add: u written_log sh fields_of_def)
  have e0: "status_writes (next r) = [] \<longrightarrow> last_status_or_200 (next r) = 200"
    by (simp add: last_status_or_200_def)
  have e1: "status_writes (next r) = [code] \<longrightarrow> last_status_or_200 (next r) = code"
    by (simp add: last_status_or_200_def)
  show ?thesis
    using m u wr e0 e1 by (simp add: ServeHTTP_result w)
qed

theorem middleware_logs_last_status_witness:
  "valid_logger s_text 0 \<and> range_ok env0
   \<and> status_writes (h_404 req0) = [404] \<and> last_status_or_200 (h_404 req0) = 404
   \<and> status_writes (h_plain req0) = [] \<and> last_status_or_200 (h_plain req0) = 200
   \<and> map_of (fields_of (snd (served h_404)) (fst (served h_404))) ''status_code'' = Some (VInt 404)
   \<and> written (HTTPLogMiddleware env0 0 h_404 req0 s_text) =
        [(Buffer 0, ''2024-01-01T00:00:00Z [INFO] HTTP request {method=GET, url=/missing, remote_addr=10.0.0.7:5100, user_agent=curl/8.5, status_code=404, duration=1ms}'' @ [newline])]
   \<and> written (HTTPLogMiddleware env0 0 h_plain req0 s_text) =
        [(Buffer 0, ''2024-01-01T00:00:00Z [INFO] HTTP request {method=GET, url=/missing, remote_addr=10.0.0.7:5100, user_agent=curl/8.5, status_code=200, duration=1ms}'' @ [newline])]"
proof -
  have s404: "status_writes (h_404 req0) = [404]" by code_simp
  have s200: "status_writes (h_plain req0) = []" by code_simp
  note t404 = middleware_logs_last_status [OF valid_s_text range_ok_env0, of h_404 req0 404]
  note t200 = middleware_logs_last_status [OF valid_s_text range_ok_env0, of h_plain req0 0]
  have c404: "last_status_or_200 (h_404 req0) = 404" using t404 s404 by simp
  have c200: "last_status_or_200 (h_plain req0) = 200" using t200 s200 by simp
  have m404: "map_of (fields_of (snd (served h_404)) (fst (served h_404))) ''status_code''
                = Some (VInt 404)"
    using t404 c404 by (simp add: served_def case_prod_beta)
  have w404: "written (log env0 (fst (served h_404)) INFO ''HTTP request'' [] (snd (served h_404))) =
        [(Buffer 0, ''2024-01-01T00:00:00Z [INFO] HTTP request {method=GET, url=/missing, remote_addr=10.0.0.7:5100, user_agent=curl/8.5, status_code=404, duration=1ms}'' @ [newline])]"
    by code_simp
  have w200: "written (log env0 (fst (served h_plain)) INFO ''HTTP request'' [] (snd (served h_plain))) =
        [(Buffer 0, ''2024-01-01T00:00:00Z [INFO] HTTP request {method=GET, url=/missing, remote_addr=10.0.0.7:5100, user_agent=curl/8.5, status_code=200, duration=1ms}'' @ [newline])]"
    by code_simp
  show ?thesis
    using valid_s_text range_ok_env0 s404 s200 c404 c200 m404 w404 w200
    by (simp only: HTTPLogMiddleware_served simp_thms)
qed

text \<open>
  C3, as the spec states it, fails: a handler that calls \<^verbatim>\<open>WriteHeader(404)\<close> and then
  \<^verbatim>\<open>WriteHeader(500)\<close> has 404 as its first status write, and the record carries 500.
\<close>

theorem middleware_first_status_counterexample:
  "status_writes (h_twice req0) = [404, 500]
   \<and> first_status_or_200 (h_twice req0) = 404
   \<and> statusCode (fst (ServeHTTP h_twice req0 (\<lparr>statusCode = 200\<rparr>, s_text))) = 500
   \<and> statusCode (fst (ServeHTTP h_twice req0 (\<lparr>statusCode = 200\<rparr>, s_text)))
        \<noteq> first_status_or_200 (h_twice req0)
   \<and> written (HTTPLogMiddleware env0 0 h_twice req0 s_text) =
        [(Buffer 0, ''2024-01-01T00:00:00Z [INFO] HTTP request {method=GET, url=/missing, remote_addr=10.0.0.7:5100, user_agent=curl/8.5, status_code=500, duration=1ms}'' @ [newline])]"
proof -
  have sw: "status_writes (h_twice req0) = [404, 500]" by code_simp
  have f: "first_status_or_200 (h_twice req0) = 404" by code_simp
  have c: "statusCode (fst (ServeHTTP h_twice req0 (\<lparr>statusCode = 200\<rparr>, s_text))) = 500"
    by (simp add: ServeHTTP_result last_status_or_200_def sw)
  have w: "written (log env0 (fst (served h_twice)) INFO ''HTTP request'' [] (snd (served h_twice))) =
        [(Buffer 0, ''2024-01-01T00:00:00Z [INFO] HTTP request {method=GET, url=/missing, remote_addr=10.0.0.7:5100, user_agent=curl/8.5, status_code=500, duration=1ms}'' @ [newline])]"
    by code_simp
  show ?thesis
    using sw f c w by (simp only: HTTPLogMiddleware_served) simp
qed

subsection \<open>Rendering\<close>

lemma formatText_explicit:
  "formatText env e =
     Timestamp e @ '' ['' @ Level e @ '']''
     @ (if Caller e = [] then [] else '' ('' @ Caller e @ '')'')
     @ '' '' @ Message e
     @ (if Fields e = [] then []
        else '' {'' @ Join (map (\<lambda>(k, v). k @ ''='' @ fmt_v v) (map_range env (Fields e))) '', ''
             @ ''}'')"
  by (simp add: formatText_def Let_def)

lemma formatText_contains_level: "sublist (Level e) (formatText env e)"
proof -
  have "formatText env e = (Timestamp e @ '' ['') @ Level e @
          ('']'' @ (if Caller e = [] then [] else '' ('' @ Caller e @ '')'')
           @ '' '' @ Message e
           @ (if Fields e = [] then []
              else '' {'' @ Join (map (\<lambda>(k, v). k @ ''='' @ fmt_v v) (map_range env (Fields e))) '', ''
                   @ ''}''))"
    by (simp add: formatText_explicit)
  then show ?thesis by (simp only: sublist_appendI)
qed

lemma formatText_contains_message: "sublist (Message e) (formatText env e)"
proof -
  have "formatText env e =
          (Timestamp e @ '' ['' @ Level e @ '']''
           @ (if Caller e = [] then [] else '' ('' @ Caller e @ '')'') @ '' '')
          @ Message e
          @ (if Fields e = [] then []
             else '' {'' @ Join (map (\<lambda>(k, v). k @ ''='' @ fmt_v v) (map_range env (Fields e))) '', ''
                  @ ''}'')"
    by (simp add: formatText_explicit)
  then show ?thesis by (simp only: sublist_appendI)
qed

lemma json_Marshal_shape:
  assumes "json_Marshal e = Some out"
  shows "\<exists>fs. out = ''{'' @ json_key ''timestamp'' @ json_string (Timestamp e)
                 @ '','' @ json_key ''level'' @ json_string (Level e)
                 @ '','' @ json_key ''message'' @ json_string (Message e)
                 @ (if Caller e \<noteq> [] then '','' @ json_key ''caller'' @ json_string (Caller e)
                    else [])
                 @ fs @ ''}''"
  using assms by (auto simp: json_Marshal_def split: option.splits if_splits)

lemma json_contains_level:
  assumes "json_Marshal e = Some out"
  shows "sublist (appendString (Level e)) out"
proof -
  from json_Marshal_shape [OF assms] obtain fs where
    "out = ''{'' @ json_key ''timestamp'' @ json_string (Timestamp e)
                 @ '','' @ json_key ''level'' @ json_string (Level e)
                 @ '','' @ json_key ''message'' @ json_string (Message e)
                 @ (if Caller e \<noteq> [] then '','' @ json_key ''caller'' @ json_string (Caller e)
                    else [])
                 @ fs @ ''}''" by blast
  then have "out = (''{'' @ json_key ''timestamp'' @ json_string (Timestamp e)
                 @ '','' @ json_key ''level'' @ [dquote]) @ appendString (Level e)
                 @ ([dquote] @ '','' @ json_key ''message'' @ json_string (Message e)
                 @ (if Caller e \<noteq> [] then '','' @ json_key ''caller'' @ json_string (Caller e)
                    else [])
                 @ fs @ ''}'')"
    by (simp add: json_string_def)
  then show ?thesis by (simp only: sublist_appendI)
qed

lemma json_contains_message:
  assumes "json_Marshal e = Some out"
  shows "sublist (appendString (Message e)) out"
proof -
  from json_Marshal_shape [OF assms] obtain fs where
    "out = ''{'' @ json_key ''timestamp'' @ json_string (Timestamp e)
                 @ '','' @ json_key ''level'' @ json_string (Level e)
                 @ '','' @ json_key ''message'' @ json_string (Message e)
                 @ (if Caller e \<noteq> [] then '','' @ json_key ''caller'' @ json_string (Caller e)
                    else [])
                 @ fs @ ''}''" by blast
  then have "out = (''{'' @ json_key ''timestamp'' @ json_string (Timestamp e)
                 @ '','' @ json_key ''level'' @ json_string (Level e)
                 @ '','' @ json_key ''message'' @ [dquote]) @ appendString (Message e)
                 @ ([dquote]
                 @ (if Caller e \<noteq> [] then '','' @ json_key ''caller'' @ json_string (Caller e)
                    else [])
                 @ fs @ ''}'')"
    by (simp add: json_string_def)
  then show ?thesis by (simp only: sublist_appendI)
qed

lemma htmlSafe_ascii: "htmlSafe c \<Longrightarrow> (of_char c :: nat) < 128"
  by (simp add: htmlSafe_def)

lemma appendString_plain: "list_all htmlSafe s \<Longrightarrow> appendString s = s"
  by (induction s) (simp_all add: htmlSafe_ascii escape_byte_def)

lemma level_names_plain:
  "list_all htmlSafe ''DEBUG''" "list_all htmlSafe ''INFO''" "list_all htmlSafe ''WARN''"
  "list_all htmlSafe ''ERROR''" "list_all htmlSafe ''FATAL''" "list_all htmlSafe ''UNKNOWN''"
  by code_simp+

lemma String_plain: "list_all htmlSafe (String lvl)"
  unfolding String_def by (simp only: level_names_plain if_split simp_thms)

lemma Level_log_entry: "Level (log_entry env L m lvl msg args) = String lvl"
  by (simp add: log_entry_def Let_def)

text \<open>
  C8, as amended. The text rendering of an entry is the timestamp, the level in brackets,
  the caller in parentheses when there is one, the message and, when the map is not empty,
  the \<^verbatim>\<open>key=value\<close> pairs joined by a comma and a space between braces, all separated
  by one space. It contains the message and the level name. The structured rendering, when
  \<^verbatim>\<open>json.Marshal\<close> succeeds, contains the level name and the message as JSON escapes
  it, which is the message itself when every byte of the message is printable ASCII and
  none of \<^verbatim>\<open>" \ < > &\<close>; when \<^verbatim>\<open>json.Marshal\<close> fails it is the text rendering.
\<close>

theorem rendering_contents:
  "formatText env e =
     Timestamp e @ '' ['' @ Level e @ '']''
     @ (if Caller e = [] then [] else '' ('' @ Caller e @ '')'')
     @ '' '' @ Message e
     @ (if Fields e = [] then []
        else '' {'' @ Join (map (\<lambda>(k, v). k @ ''='' @ fmt_v v) (map_range env (Fields e))) '', ''
             @ ''}'')
   \<and> formatEntry env (L\<lparr>format := TextFormat\<rparr>) e = formatText env e
   \<and> Contains (formatText env e) (Message e)
   \<and> Contains (formatText env e) (Level e)
   \<and> Level (log_entry env L m lvl msg args) = String lvl
   \<and> (json_Marshal e = Some out \<longrightarrow>
         formatEntry env (L\<lparr>format := JSONFormat\<rparr>) e = out
       \<and> Contains out (appendString (Message e))
       \<and> Contains out (appendString (Level e))
       \<and> (list_all htmlSafe (Message e) \<longrightarrow> Contains out (Message e)))
   \<and> (json_Marshal (log_entry env L m lvl msg args) = Some out \<longrightarrow> Contains out (String lvl))
   \<and> (json_Marshal e = None \<longrightarrow>
         formatEntry env (L\<lparr>format := JSONFormat\<rparr>) e = formatText env e)"
proof -
  have t: "formatEntry env (L\<lparr>format := TextFormat\<rparr>) e = formatText env e"
    by (simp add: formatEntry_def TextFormat_def JSONFormat_def)
  have j: "formatEntry env (L\<lparr>format := JSONFormat\<rparr>) e = out" if "json_Marshal e = Some out"
    using that by (simp add: formatEntry_def)
  have n: "formatEntry env (L\<lparr>format := JSONFormat\<rparr>) e = formatText env e"
    if "json_Marshal e = None"
    using that by (simp add: formatEntry_def)
  have p: "Contains out (Message e)" if "json_Marshal e = Some out" "list_all htmlSafe (Message e)"
    using json_contains_message [OF that(1)] appendString_plain [OF that(2)]
    by (simp add: Contains_def)
  have l: "Contains out (String lvl)" if "json_Marshal (log_entry env L m lvl msg args) = Some out"
    using json_contains_level [OF that] appendString_plain [OF String_plain, of lvl]
    by (simp add: Contains_def Level_log_entry)
  show ?thesis
    using formatText_explicit [of env e] t j n p l
      formatText_contains_message [of e env] formatText_contains_level [of e env]
      json_contains_message [of e out] json_contains_level [of e out]
      Level_log_entry [of env L m lvl msg args]
    unfolding Contains_def by blast
qed

theorem rendering_contents_witness:
  "json_Marshal e_hello = Some (the (json_Marshal e_hello))
   \<and> list_all htmlSafe (Message e_hello)
   \<and> Contains (the (json_Marshal e_hello)) ''hello''
   \<and> Contains (the (json_Marshal e_hello)) ''INFO''
   \<and> formatText env0 e_hello = ''2024-01-01T00:00:00Z [INFO] hello''
   \<and> Contains (formatText env0 e_quote) msg_quote"
proof -
  have a: "json_Marshal e_hello = Some (the (json_Marshal e_hello))" by code_simp
  have b: "list_all htmlSafe (Message e_hello)" by code_simp
  have m: "Message e_hello = ''hello''" "Level e_hello = ''INFO''" "Message e_quote = msg_quote"
    by code_simp+
  have f: "formatText env0 e_hello = ''2024-01-01T00:00:00Z [INFO] hello''" by code_simp
  note t = rendering_contents [where env = env0 and e = e_hello and out = "the (json_Marshal e_hello)"
              and L = "loggers s_json ! 0" and m = "fields_of s_json 0" and lvl = INFO
              and msg = "''hello''" and args = "[]"]
  note q = rendering_contents [where env = env0 and e = e_quote and out = "[]"
              and L = "loggers s_json ! 0" and m = "fields_of s_json 0" and lvl = INFO
              and msg = "''hello''" and args = "[]"]
  have c1: "Contains (the (json_Marshal e_hello)) ''hello''"
    using t a b m by simp
  have c2: "Contains (the (json_Marshal e_hello)) ''INFO''"
    using t a by (simp add: e_hello_def [symmetric]) (simp add: String_def level_defs)
  have "Contains (formatText env0 e_quote) (Message e_quote)"
    by (rule conjunct1 [OF conjunct2 [OF conjunct2 [OF q]]])
  then have c3: "Contains (formatText env0 e_quote) msg_quote"
    by (simp only: m)
  show ?thesis using a b f c1 c2 c3 by simp
qed

text \<open>
  C8, as the spec states it, fails for the structured rendering: the message
  \<^verbatim>\<open>a"b\<close> is written as \<^verbatim>\<open>a\"b\<close>, and the line does not contain the message.
\<close>

theorem structured_rendering_counterexample:
  "Message e_quote = msg_quote
   \<and> json_Marshal e_quote = Some (formatEntry env0 (loggers s_json ! 0) e_quote)
   \<and> written (log env0 0 INFO msg_quote [] s_json)
        = [(Stdout, formatEntry env0 (loggers s_json ! 0) e_quote @ [newline])]
   \<and> \<not> Contains (formatEntry env0 (loggers s_json ! 0) e_quote @ [newline]) msg_quote
   \<and> Contains (formatEntry env0 (loggers s_json ! 0) e_quote)
        [CHR ''a'', backslash, dquote, CHR ''b'']"
  by code_simp

(*THEOREMS*)

end
